theory Spec2Isabelle
  imports Main "HOL-Library.Word"
begin

unbundle bit_operations_syntax

section \<open>Shared data\<close>

text \<open>
  Go \<open>error\<close> values. \<open>ErrUnhandled\<close> is the sentinel of package \<open>responses\<close>
  (a handler declines a response), \<open>ErrShortWrite\<close> is \<open>io.ErrShortWrite\<close>,
  \<open>Error msg\<close> stands for any other error value, and \<open>Panic\<close> for a run-time panic
  (a method called through a nil pointer).
\<close>

datatype error = ErrUnhandled | ErrShortWrite | Error string | Panic

type_synonym byte = char

section \<open>responses/list.go: the LIST and LSUB response\<close>

definition listName :: string where
  "listName = ''LIST''"

definition lsubName :: string where
  "lsubName = ''LSUB''"

text \<open>
  \<open>imap.MailboxInfo\<close>, with the three fields the spec names. A field of a response is
  an \<open>interface{}\<close> value; the shapes IMAP uses are enough here.
\<close>

record MailboxInfo =
  Attributes :: "string list"
  Delimiter :: string
  Name :: string

datatype field = RawString string | Str string | Nil | Lst "field list"

text \<open>
  The struct \<open>List\<close> (named \<open>List_resp\<close> here, \<open>List\<close> being the theory of
  lists). The channel \<open>Mailboxes\<close> is modelled by the sequence of records
  that pass through it: a send appends a record, \<open>range\<close> takes them from the front
  until the producer closes the channel. The channel is taken to be open and to have
  a receiver: how long a send waits, and a send on a closed channel, are not part of
  the model.
\<close>

record List_resp =
  Mailboxes :: "MailboxInfo list"
  Subscribed :: bool
  SpecialUse :: bool

definition Name_of :: "'a List_resp_scheme \<Rightarrow> string" where
  "Name_of r = (if Subscribed r then lsubName else listName)"

text \<open>
  \<open>List.Handle\<close>. \<open>imap.ParseNamedResp\<close> and \<open>MailboxInfo.Parse\<close> are declared outside
  the file; they are the parameters \<open>parseNamedResp\<close> (name, fields, ok) and \<open>parse\<close>
  (an error, or the record the fields decode to). The result is the returned error
  (\<open>None\<close> is \<open>nil\<close>) and the handler with its channel.
\<close>

definition Handle ::
  "('resp \<Rightarrow> string \<times> field list \<times> bool) \<Rightarrow> (field list \<Rightarrow> error + MailboxInfo)
    \<Rightarrow> List_resp \<Rightarrow> 'resp \<Rightarrow> error option \<times> List_resp" where
  "Handle parseNamedResp parse r resp =
     (case parseNamedResp resp of (name, flds, ok) \<Rightarrow>
        if \<not> ok \<or> name \<noteq> Name_of r then (Some ErrUnhandled, r)
        else (case parse flds of
                Inl err \<Rightarrow> (Some err, r)
              | Inr mbox \<Rightarrow> (None, r\<lparr>Mailboxes := Mailboxes r @ [mbox]\<rparr>)))"

text \<open>
  A Go \<open>map[string]bool\<close>: a key that was never stored reads as \<open>false\<close>.
\<close>

type_synonym strmap = "string \<rightharpoonup> bool"

definition lookup :: "strmap \<Rightarrow> string \<Rightarrow> bool" where
  "lookup h e = (case h e of None \<Rightarrow> False | Some b \<Rightarrow> b)"

text \<open>The first loop of \<open>intersection\<close>: \<open>hash[e] = true\<close> for every element of \<open>s1\<close>.\<close>

fun hash_fill :: "string list \<Rightarrow> strmap \<Rightarrow> strmap" where
  "hash_fill [] hash = hash"
| "hash_fill (e # es) hash = hash_fill es (hash(e \<mapsto> True))"

text \<open>The second loop: every element of \<open>s2\<close> found in the map is appended to \<open>inter\<close>
  (\<open>intr\<close> here).\<close>

fun inter_loop :: "strmap \<Rightarrow> string list \<Rightarrow> string list \<Rightarrow> string list" where
  "inter_loop hash [] intr = intr"
| "inter_loop hash (e # es) intr =
     (if lookup hash e then inter_loop hash es (intr @ [e]) else inter_loop hash es intr)"

text \<open>The loop of \<open>removeDups\<close>, with its map \<open>encountered\<close> and its result \<open>nodups\<close>.\<close>

fun removeDups_loop :: "string list \<Rightarrow> strmap \<Rightarrow> string list \<Rightarrow> string list" where
  "removeDups_loop [] encountered nodups = nodups"
| "removeDups_loop (element # elements) encountered nodups =
     (if \<not> lookup encountered element
      then removeDups_loop elements (encountered(element \<mapsto> True)) (nodups @ [element])
      else removeDups_loop elements encountered nodups)"

definition removeDups :: "string list \<Rightarrow> string list" where
  "removeDups elements = removeDups_loop elements Map.empty []"

definition intersection :: "string list \<Rightarrow> string list \<Rightarrow> string list" where
  "intersection s1 s2 = removeDups (inter_loop (hash_fill s1 Map.empty) s2 [])"

text \<open>An attribute token starts with a backslash (character \<open>0x5C\<close>).\<close>

definition flag :: "string \<Rightarrow> string" where
  "flag s = CHR 0x5C # s"

definition specialuse :: "string list" where
  "specialuse = [flag ''ALL'', flag ''Archive'', flag ''Drafts'', flag ''Flagged'',
     flag ''Junk'', flag ''Sent'', flag ''Trash'', flag ''Important'']"

text \<open>
  \<open>List.WriteTo\<close>. \<open>MailboxInfo.Format\<close> is the parameter \<open>format\<close>, and
  \<open>imap.NewUntaggedResp(fields).WriteTo(w)\<close> is the parameter \<open>respWriteTo\<close>, which
  takes the fields of one response and the writer and returns the error and the writer.
  The loop runs over the records the channel delivers; when a write fails the
  records not yet received stay in the channel.
\<close>

fun WriteTo_loop ::
  "(MailboxInfo \<Rightarrow> field list) \<Rightarrow> (field list \<Rightarrow> 'w \<Rightarrow> error option \<times> 'w)
    \<Rightarrow> string \<Rightarrow> bool \<Rightarrow> MailboxInfo list \<Rightarrow> 'w \<Rightarrow> error option \<times> MailboxInfo list \<times> 'w" where
  "WriteTo_loop format respWriteTo respName su [] w = (None, [], w)"
| "WriteTo_loop format respWriteTo respName su (mbox # rest) w =
     (if su \<and> length (intersection (Attributes mbox) specialuse) = 0
      then WriteTo_loop format respWriteTo respName su rest w
      else (let flds = [RawString respName] @ format mbox
            in case respWriteTo flds w of
                 (Some err, w') \<Rightarrow> (Some err, rest, w')
               | (None, w') \<Rightarrow> WriteTo_loop format respWriteTo respName su rest w'))"

definition WriteTo ::
  "(MailboxInfo \<Rightarrow> field list) \<Rightarrow> (field list \<Rightarrow> 'w \<Rightarrow> error option \<times> 'w)
    \<Rightarrow> List_resp \<Rightarrow> 'w \<Rightarrow> error option \<times> List_resp \<times> 'w" where
  "WriteTo format respWriteTo r w =
     (case WriteTo_loop format respWriteTo (Name_of r) (SpecialUse r) (Mailboxes r) w of
        (err, rest, w') \<Rightarrow> (err, r\<lparr>Mailboxes := rest\<rparr>, w'))"

text \<open>
  What the drain is compared with: writing a given sequence of responses one after
  the other, stopping at the first error.
\<close>

fun write_lines ::
  "(field list \<Rightarrow> 'w \<Rightarrow> error option \<times> 'w) \<Rightarrow> field list list \<Rightarrow> 'w \<Rightarrow> error option \<times> 'w" where
  "write_lines respWriteTo [] w = (None, w)"
| "write_lines respWriteTo (l # ls) w =
     (case respWriteTo l w of
        (Some err, w') \<Rightarrow> (Some err, w')
      | (None, w') \<Rightarrow> write_lines respWriteTo ls w')"

text \<open>A writer that records each response it is given and never fails.\<close>

definition record_line :: "field list \<Rightarrow> field list list \<Rightarrow> error option \<times> field list list" where
  "record_line flds w = (None, w @ [flds])"

text \<open>
  Insertion into an ordered set: a token already present keeps its place, a new one
  goes to the end. The results of \<open>removeDups\<close> and \<open>intersection\<close> are compared
  with it.
\<close>

definition add_once :: "string \<Rightarrow> string list \<Rightarrow> string list" where
  "add_once x acc = (if x \<in> set acc then acc else acc @ [x])"

text \<open>The test of \<open>WriteTo\<close> that lets a record through to the writer.\<close>

definition emitted :: "bool \<Rightarrow> MailboxInfo \<Rightarrow> bool" where
  "emitted su mbox \<longleftrightarrow> \<not> (su \<and> length (intersection (Attributes mbox) specialuse) = 0)"

section \<open>conn.go: connection states\<close>

text \<open>
  The constants of \<open>ConnState\<close> (a Go \<open>int\<close>), with the source's expressions:
  \<open>1 << k\<close> is \<open>push_bit k 1\<close>.
\<close>

definition ConnectingState :: int where
  "ConnectingState = 0"

definition NotAuthenticatedState :: int where
  "NotAuthenticatedState = push_bit 0 1"

definition AuthenticatedState :: int where
  "AuthenticatedState = push_bit 1 1"

definition SelectedState :: int where
  "SelectedState = AuthenticatedState + push_bit 2 1"

definition LogoutState :: int where
  "LogoutState = push_bit 3 1"

definition ConnectedState :: int where
  "ConnectedState = NotAuthenticatedState OR AuthenticatedState OR SelectedState"

section \<open>conn.go: the flush aggregator\<close>

text \<open>
  \<open>multiFlusher.Flush\<close>. A \<open>flusher\<close> is an interface value; \<open>Flush\<close> here is the method
  that \<open>f.Flush()\<close> dispatches to, run on a state of any type. The loop returns at the
  first error.
\<close>

fun multiFlusher_Flush ::
  "('f \<Rightarrow> 's \<Rightarrow> error option \<times> 's) \<Rightarrow> 'f list \<Rightarrow> 's \<Rightarrow> error option \<times> 's" where
  "multiFlusher_Flush Flush [] s = (None, s)"
| "multiFlusher_Flush Flush (f # flushers) s =
     (case Flush f s of
        (Some e, s') \<Rightarrow> (Some e, s')
      | (None, s') \<Rightarrow> multiFlusher_Flush Flush flushers s')"

definition newMultiFlusher :: "'f list \<Rightarrow> 'f list" where
  "newMultiFlusher flushers = flushers"

text \<open>
  Sinks to try the aggregate on: sink \<open>i\<close> writes its number to a log when it is
  flushed and fails where \<open>res\<close> gives it an error.
\<close>

definition logged_Flush :: "(nat \<Rightarrow> error option) \<Rightarrow> nat \<Rightarrow> nat list \<Rightarrow> error option \<times> nat list" where
  "logged_Flush res i log = (res i, log @ [i])"

section \<open>conn.go: the transport\<close>

subsection \<open>Streams, sinks and the store\<close>

text \<open>
  The write side of a stream or of a diagnostic sink, as an \<open>io.Writer\<close> that keeps
  its contract: it takes the bytes in full, or it takes the first \<open>k\<close> of them and
  returns its error. \<open>room = None\<close> is an endpoint that never fails.
\<close>

record endpoint =
  accepted :: "byte list"
  room :: "nat option"
  failure :: error

definition endpoint_Write :: "endpoint \<Rightarrow> byte list \<Rightarrow> (nat \<times> error option) \<times> endpoint" where
  "endpoint_Write ep p =
     (case room ep of
        None \<Rightarrow> ((length p, None), ep\<lparr>accepted := accepted ep @ p\<rparr>)
      | Some k \<Rightarrow>
          if length p \<le> k
          then ((length p, None), ep\<lparr>accepted := accepted ep @ p, room := Some (k - length p)\<rparr>)
          else ((k, Some (failure ep)), ep\<lparr>accepted := accepted ep @ take k p, room := Some 0\<rparr>))"

text \<open>
  A \<open>net.Conn\<close>: its write side, the bytes that will arrive on it and the error of a
  read when none is left, whether its dynamic type has a \<open>Flush\<close> method
  (the type assertion \<open>c.Conn.(flusher)\<close>), what that method returns and how often it
  was called, and the two addresses (\<open>None\<close> is \<open>nil\<close>).
\<close>

record netconn =
  wire :: endpoint
  incoming :: "byte list"
  read_failure :: error
  has_Flush :: bool
  flush_result :: "error option"
  flush_calls :: nat
  LocalAddr :: "string option"
  RemoteAddr :: "string option"

text \<open>
  An implementation of \<open>WriterWithFields\<close>: the fields set so far and the \<open>io.Writer\<close>
  (a sink of the store, or \<open>nil\<close>) that \<open>Writer()\<close> returns.
\<close>

record fieldwriter =
  fields_set :: "string \<rightharpoonup> string"
  Writer_of :: "nat option"

text \<open>
  Streams, sinks and field writers are objects with an identity: the store maps
  their numbers to their states.
\<close>

record world =
  conns :: "nat \<Rightarrow> netconn"
  sinks :: "nat \<Rightarrow> endpoint"
  fieldwriters :: "nat \<Rightarrow> fieldwriter"

definition netconn_Write :: "nat \<Rightarrow> byte list \<Rightarrow> world \<Rightarrow> (nat \<times> error option) \<times> world" where
  "netconn_Write sid p W =
     (case endpoint_Write (wire (conns W sid)) p of
        (res, ep) \<Rightarrow> (res, W\<lparr>conns := (conns W)(sid := (conns W sid)\<lparr>wire := ep\<rparr>)\<rparr>))"

definition sink_Write :: "nat \<Rightarrow> byte list \<Rightarrow> world \<Rightarrow> (nat \<times> error option) \<times> world" where
  "sink_Write d p W =
     (case endpoint_Write (sinks W d) p of
        (res, ep) \<Rightarrow> (res, W\<lparr>sinks := (sinks W)(d := ep)\<rparr>))"

text \<open>\<open>Read\<close> into a buffer of \<open>k\<close> bytes: the bytes read and the error.\<close>

definition netconn_Read :: "nat \<Rightarrow> nat \<Rightarrow> world \<Rightarrow> (byte list \<times> error option) \<times> world" where
  "netconn_Read sid k W =
     (let nc = conns W sid
      in if k = 0 then (([], None), W)
         else if incoming nc = [] then (([], Some (read_failure nc)), W)
         else ((take k (incoming nc), None),
               W\<lparr>conns := (conns W)(sid := nc\<lparr>incoming := drop k (incoming nc)\<rparr>)\<rparr>))"

text \<open>The \<open>Flush\<close> method of a stream that has one.\<close>

definition netconn_Flush :: "nat \<Rightarrow> world \<Rightarrow> error option \<times> world" where
  "netconn_Flush sid W =
     (flush_result (conns W sid),
      W\<lparr>conns := (conns W)(sid := (conns W sid)\<lparr>flush_calls := Suc (flush_calls (conns W sid))\<rparr>)\<rparr>)"

definition SetField :: "nat \<Rightarrow> string \<Rightarrow> string \<Rightarrow> world \<Rightarrow> world" where
  "SetField fw key val W =
     W\<lparr>fieldwriters := (fieldwriters W)
          (fw := (fieldwriters W fw)\<lparr>fields_set := (fields_set (fieldwriters W fw))(key \<mapsto> val)\<rparr>)\<rparr>"

subsection \<open>The standard library: io.MultiWriter, io.TeeReader, bufio\<close>

text \<open>
  The writers and readers \<open>init\<close> builds. \<open>Plain (ToConn n)\<close> is \<open>io.Writer(c.Conn)\<close>,
  \<open>MultiWriter [ToConn n, ToSink d]\<close> is \<open>io.MultiWriter(c.Conn, localDebug)\<close>,
  \<open>FromConn n\<close> is \<open>io.Reader(c.Conn)\<close> and \<open>TeeReader n d\<close> is
  \<open>io.TeeReader(c.Conn, remoteDebug)\<close>.
\<close>

datatype target = ToConn nat | ToSink nat

datatype iowriter = Plain target | MultiWriter "target list"

datatype ioreader = FromConn nat | TeeReader nat nat

definition target_Write :: "target \<Rightarrow> byte list \<Rightarrow> world \<Rightarrow> (nat \<times> error option) \<times> world" where
  "target_Write t p W = (case t of ToConn sid \<Rightarrow> netconn_Write sid p W | ToSink d \<Rightarrow> sink_Write d p W)"

text \<open>
  \<open>io.MultiWriter\<close>: each writer in turn; the first error, or a short count as
  \<open>io.ErrShortWrite\<close>, ends the write.
\<close>

fun multiWriter_Write :: "target list \<Rightarrow> byte list \<Rightarrow> world \<Rightarrow> (nat \<times> error option) \<times> world" where
  "multiWriter_Write [] p W = ((length p, None), W)"
| "multiWriter_Write (t # ts) p W =
     (case target_Write t p W of
        ((n, Some e), W') \<Rightarrow> ((n, Some e), W')
      | ((n, None), W') \<Rightarrow>
          if n \<noteq> length p then ((n, Some ErrShortWrite), W') else multiWriter_Write ts p W')"

definition io_Write :: "iowriter \<Rightarrow> byte list \<Rightarrow> world \<Rightarrow> (nat \<times> error option) \<times> world" where
  "io_Write w p W = (case w of Plain t \<Rightarrow> target_Write t p W | MultiWriter ts \<Rightarrow> multiWriter_Write ts p W)"

text \<open>
  \<open>io.TeeReader\<close>: what is read is written to the sink; when that write fails the
  read returns the count and the error of the write.
\<close>

definition teeReader_Read :: "nat \<Rightarrow> nat \<Rightarrow> nat \<Rightarrow> world \<Rightarrow> (byte list \<times> error option) \<times> world" where
  "teeReader_Read sid d k W =
     (case netconn_Read sid k W of
        ((bs, e), W1) \<Rightarrow>
          if length bs > 0
          then (case sink_Write d bs W1 of
                  ((n, Some e'), W2) \<Rightarrow> ((take n bs, Some e'), W2)
                | ((n, None), W2) \<Rightarrow> ((bs, e), W2))
          else ((bs, e), W1))"

definition io_Read :: "ioreader \<Rightarrow> nat \<Rightarrow> world \<Rightarrow> (byte list \<times> error option) \<times> world" where
  "io_Read r k W = (case r of FromConn sid \<Rightarrow> netconn_Read sid k W | TeeReader sid d \<Rightarrow> teeReader_Read sid d k W)"

text \<open>
  \<open>bufio.Writer\<close>: the bytes not yet flushed, the error that sticks once a write to
  the sink has failed, and the sink. The size of the buffer is left out: \<open>Write\<close>
  stores the bytes and \<open>Flush\<close> hands them to the sink, keeping what a failed write
  did not take. \<open>Reset\<close> drops the bytes and the error and takes a new sink.
\<close>

record bufWriter =
  wbuf :: "byte list"
  werr :: "error option"
  wr :: iowriter

definition NewWriter :: "iowriter \<Rightarrow> bufWriter" where
  "NewWriter w = \<lparr>wbuf = [], werr = None, wr = w\<rparr>"

definition Writer_Reset :: "bufWriter \<Rightarrow> iowriter \<Rightarrow> bufWriter" where
  "Writer_Reset b w = b\<lparr>wbuf := [], werr := None, wr := w\<rparr>"

definition bufio_Write :: "bufWriter \<Rightarrow> byte list \<Rightarrow> (nat \<times> error option) \<times> bufWriter" where
  "bufio_Write b p =
     (case werr b of
        Some e \<Rightarrow> ((0, Some e), b)
      | None \<Rightarrow> ((length p, None), b\<lparr>wbuf := wbuf b @ p\<rparr>))"

definition bufio_Flush :: "bufWriter \<Rightarrow> world \<Rightarrow> error option \<times> bufWriter \<times> world" where
  "bufio_Flush b W =
     (case werr b of
        Some e \<Rightarrow> (Some e, b, W)
      | None \<Rightarrow>
          if wbuf b = [] then (None, b, W)
          else (case io_Write (wr b) (wbuf b) W of
                  ((n, e), W') \<Rightarrow>
                    (case (if n < length (wbuf b) \<and> e = None then Some ErrShortWrite else e) of
                       Some e' \<Rightarrow> (Some e', b\<lparr>wbuf := drop n (wbuf b), werr := Some e'\<rparr>, W')
                     | None \<Rightarrow> (None, b\<lparr>wbuf := []\<rparr>, W'))))"

text \<open>\<open>bufio.Reader\<close>: the bytes read ahead and the source.\<close>

record bufReader =
  rbuf :: "byte list"
  rd :: ioreader

definition NewReader :: "ioreader \<Rightarrow> bufReader" where
  "NewReader r = \<lparr>rbuf = [], rd = r\<rparr>"

definition Reader_Reset :: "bufReader \<Rightarrow> ioreader \<Rightarrow> bufReader" where
  "Reader_Reset b r = b\<lparr>rbuf := [], rd := r\<rparr>"

subsection \<open>Diagnostic writers\<close>

text \<open>
  The value of \<open>c.debug\<close>, by its dynamic type: a \<open>*debugWriter\<close> (the embedded \<open>Writer\<close>,
  \<open>local\<close>, \<open>remote\<close>: sinks), a \<open>*debugWithFields\<close> (the embedded \<open>Writer\<close>, a sink, and
  \<open>local\<close>, \<open>remote\<close>: field writers), or any other \<open>io.Writer\<close>, a sink.
\<close>

datatype debug_value =
    OtherWriter nat
  | DebugWriter "nat option" "nat option" "nat option"
  | DebugWithFields "nat option" "nat option" "nat option"

definition NewDebugWriter :: "nat option \<Rightarrow> nat option \<Rightarrow> debug_value" where
  "NewDebugWriter local remote = DebugWriter local local remote"

definition NewDebugWithFields :: "nat option \<Rightarrow> nat option \<Rightarrow> world \<Rightarrow> debug_value" where
  "NewDebugWithFields local remote W =
     (let w = (case local of None \<Rightarrow> None | Some l \<Rightarrow> Writer_of (fieldwriters W l))
      in DebugWithFields w local remote)"

text \<open>
  The methods of \<open>debugWithFields\<close>, on its three fields.
\<close>

definition withField :: "nat option \<Rightarrow> nat option \<Rightarrow> string \<Rightarrow> string \<Rightarrow> world \<Rightarrow> world" where
  "withField local remote key val W =
     (let W1 = (case local of None \<Rightarrow> W | Some l \<Rightarrow> SetField l key val W)
      in (case remote of None \<Rightarrow> W1 | Some r \<Rightarrow> SetField r key val W1))"

definition localWriter :: "nat option \<Rightarrow> nat option \<Rightarrow> world \<Rightarrow> nat option \<times> nat option" where
  "localWriter writer local W =
     (case local of
        None \<Rightarrow> (None, writer)
      | Some l \<Rightarrow> (Writer_of (fieldwriters W l), Writer_of (fieldwriters W l)))"

definition remoteWriter :: "nat option \<Rightarrow> world \<Rightarrow> nat option" where
  "remoteWriter remote W = (case remote of None \<Rightarrow> None | Some r \<Rightarrow> Writer_of (fieldwriters W r))"

subsection \<open>Conn\<close>

text \<open>
  What \<open>Writer.Writer\<close> holds: \<open>WBw\<close> is \<open>c.bw\<close>; \<open>WStruct fs\<close> is the struct of \<open>init\<close>
  that embeds \<open>c.bw\<close> as its \<open>io.Writer\<close> and a \<open>multiFlusher\<close> over \<open>fs\<close> as its
  \<open>flusher\<close>; \<open>WNil\<close> is no writer, the state before \<open>NewConn\<close> has run \<open>init\<close>, which
  replaces whatever the caller's \<open>imap.Writer\<close> held. A flusher of the list is \<open>c.bw\<close>
  or a stream. \<open>Reader.reader\<close> likewise. The channel \<open>waits\<close> is open or closed, and
  \<open>None\<close> when \<open>nil\<close>.
\<close>

datatype flusher_ref = FBw | FConn nat

datatype writer_iface = WNil | WBw | WStruct "flusher_ref list"

datatype reader_iface = RNil | RBr

datatype chan = Open | Closed

record Conn =
  Conn :: nat
  Reader_reader :: reader_iface
  Writer_Writer :: writer_iface
  br :: "bufReader option"
  bw :: "bufWriter option"
  waits :: "chan option"
  debug :: "debug_value option"

text \<open>
  The body of \<open>if c.debug != nil\<close> in \<open>init\<close>: the writers \<open>localDebug\<close> and
  \<open>remoteDebug\<close>, the diagnostic value (whose embedded \<open>Writer\<close> the method
  \<open>localWriter\<close> sets) and the store (where \<open>withField\<close> sets the fields).
\<close>

definition debug_sides ::
  "debug_value \<Rightarrow> nat \<Rightarrow> world \<Rightarrow> (nat option \<times> nat option) \<times> debug_value \<times> world" where
  "debug_sides d sid W =
     (case d of
        OtherWriter n \<Rightarrow> ((Some n, Some n), d, W)
      | DebugWriter writer local remote \<Rightarrow> ((local, remote), d, W)
      | DebugWithFields writer local remote \<Rightarrow>
          (let W1 = (case LocalAddr (conns W sid) of
                       None \<Rightarrow> W
                     | Some addr \<Rightarrow> withField local remote ''loc'' addr W);
               W2 = (case RemoteAddr (conns W1 sid) of
                       None \<Rightarrow> W1
                     | Some addr \<Rightarrow> withField local remote ''rem'' addr W1);
               (localDebug, writer') = localWriter writer local W2;
               remoteDebug = remoteWriter remote W2
           in ((localDebug, remoteDebug), DebugWithFields writer' local remote, W2)))"

text \<open>
  \<open>Conn.init\<close>. The buffered reader and writer are made when \<open>c.br\<close> and \<open>c.bw\<close> are
  \<open>nil\<close> and reset otherwise; \<open>Writer.Writer\<close> is set where the writer is made, and
  where the stream has a \<open>Flush\<close> method.
\<close>

definition init :: "Conn \<Rightarrow> world \<Rightarrow> Conn \<times> world" where
  "init c W =
     (let sid = Conn c;
          ((localDebug, remoteDebug), dbg, W') =
            (case debug c of
               None \<Rightarrow> ((None, None), None, W)
             | Some d \<Rightarrow> (case debug_sides d sid W of (sides, d', W1) \<Rightarrow> (sides, Some d', W1)));
          w = (case localDebug of
                 None \<Rightarrow> Plain (ToConn sid)
               | Some l \<Rightarrow> MultiWriter [ToConn sid, ToSink l]);
          r = (case remoteDebug of
                 None \<Rightarrow> FromConn sid
               | Some rm \<Rightarrow> TeeReader sid rm);
          c1 = c\<lparr>debug := dbg\<rparr>;
          c2 = (case br c1 of
                  None \<Rightarrow> c1\<lparr>br := Some (NewReader r), Reader_reader := RBr\<rparr>
                | Some b \<Rightarrow> c1\<lparr>br := Some (Reader_Reset b r)\<rparr>);
          c3 = (case bw c2 of
                  None \<Rightarrow> c2\<lparr>bw := Some (NewWriter w), Writer_Writer := WBw\<rparr>
                | Some b \<Rightarrow> c2\<lparr>bw := Some (Writer_Reset b w)\<rparr>);
          c4 = (if has_Flush (conns W' sid)
                then c3\<lparr>Writer_Writer := WStruct (newMultiFlusher [FBw, FConn sid])\<rparr>
                else c3)
      in (c4, W'))"

text \<open>
  \<open>NewConn\<close>: the reader and the writer the caller passes are set by \<open>init\<close>, so what
  they held before does not matter.
\<close>

definition NewConn :: "nat \<Rightarrow> world \<Rightarrow> Conn \<times> world" where
  "NewConn conn W =
     init \<lparr>Conn = conn, Reader_reader = RNil, Writer_Writer = WNil, br = None, bw = None,
           waits = None, debug = None\<rparr> W"

text \<open>
  \<open>Conn.Write\<close> is \<open>c.Writer.Write\<close>, the \<open>Write\<close> of the \<open>io.Writer\<close> embedded in
  \<open>imap.Writer\<close>: of \<open>c.bw\<close>, directly or through the struct of \<open>init\<close>.
\<close>

definition Conn_Write :: "Conn \<Rightarrow> byte list \<Rightarrow> (nat \<times> error option) \<times> Conn" where
  "Conn_Write c b =
     (case Writer_Writer c of
        WNil \<Rightarrow> ((0, Some Panic), c)
      | _ \<Rightarrow> (case bw c of
                None \<Rightarrow> ((0, Some Panic), c)
              | Some w \<Rightarrow> (case bufio_Write w b of (res, w') \<Rightarrow> (res, c\<lparr>bw := Some w'\<rparr>))))"

text \<open>The \<open>Flush\<close> method of a flusher of the transport: of \<open>c.bw\<close>, or of a stream.\<close>

definition flusher_Flush :: "flusher_ref \<Rightarrow> Conn \<times> world \<Rightarrow> error option \<times> Conn \<times> world" where
  "flusher_Flush f s =
     (case s of (c, W) \<Rightarrow>
        (case f of
           FBw \<Rightarrow> (case bw c of
                     None \<Rightarrow> (Some Panic, c, W)
                   | Some w \<Rightarrow> (case bufio_Flush w W of (e, w', W') \<Rightarrow> (e, c\<lparr>bw := Some w'\<rparr>, W')))
         | FConn sid \<Rightarrow> (case netconn_Flush sid W of (e, W') \<Rightarrow> (e, c, W'))))"

text \<open>
  Modelled from the spec: \<open>imap.Writer.Flush\<close>, which is declared outside the file.
  The spec has a flush of the transport flush the buffered writer and, where the
  stream has a flush of its own, that one too: the method calls the \<open>Flush\<close> of the
  writer it wraps, \<open>c.bw\<close> or the struct of \<open>init\<close> with its \<open>multiFlusher\<close>, and
  returns \<open>nil\<close> when it wraps none.
\<close>

definition Writer_Flush :: "Conn \<Rightarrow> world \<Rightarrow> error option \<times> Conn \<times> world" where
  "Writer_Flush c W =
     (case Writer_Writer c of
        WNil \<Rightarrow> (None, c, W)
      | WBw \<Rightarrow> flusher_Flush FBw (c, W)
      | WStruct flushers \<Rightarrow> multiFlusher_Flush flusher_Flush flushers (c, W))"

definition Conn_Flush :: "Conn \<Rightarrow> world \<Rightarrow> error option \<times> Conn \<times> world" where
  "Conn_Flush c W =
     (case Writer_Flush c W of
        (Some e, c', W') \<Rightarrow> (Some e, c', W')
      | (None, c', W') \<Rightarrow> (None, c', W'))"

text \<open>
  \<open>Conn.Upgrade\<close>. The upgrader takes the stream and the store and returns an error
  or the new stream. \<open>defer close(c.waits)\<close> closes the channel on both returns after
  it was made.
\<close>

definition Upgrade ::
  "(nat \<Rightarrow> world \<Rightarrow> (error + nat) \<times> world) \<Rightarrow> Conn \<Rightarrow> world \<Rightarrow> error option \<times> Conn \<times> world" where
  "Upgrade upgrader c W =
     (case Conn_Flush c W of
        (Some e, c1, W1) \<Rightarrow> (Some e, c1, W1)
      | (None, c1, W1) \<Rightarrow>
          (let c2 = c1\<lparr>waits := Some Open\<rparr>
           in case upgrader (Conn c2) W1 of
                (Inl e, W2) \<Rightarrow> (Some e, c2\<lparr>waits := Some Closed\<rparr>, W2)
              | (Inr upgraded, W2) \<Rightarrow>
                  (case init (c2\<lparr>Conn := upgraded\<rparr>) W2 of
                     (c3, W3) \<Rightarrow> (None, c3\<lparr>waits := Some Closed\<rparr>, W3))))"

text \<open>A caller's \<open>Write\<close> followed by \<open>Flush\<close>.\<close>

definition Write_then_Flush :: "Conn \<Rightarrow> byte list \<Rightarrow> world \<Rightarrow> error option \<times> Conn \<times> world" where
  "Write_then_Flush c p W = (case Conn_Write c p of (res, c1) \<Rightarrow> Conn_Flush c1 W)"

text \<open>\<open>Conn.Wait\<close> returns at once, or blocks on the open channel.\<close>

datatype wait_result = Returns | Blocks

definition Wait :: "Conn \<Rightarrow> wait_result" where
  "Wait c = (case waits c of None \<Rightarrow> Returns | Some Open \<Rightarrow> Blocks | Some Closed \<Rightarrow> Returns)"

definition SetDebug :: "debug_value option \<Rightarrow> Conn \<Rightarrow> world \<Rightarrow> Conn \<times> world" where
  "SetDebug w c W = init (c\<lparr>debug := w\<rparr>) W"

subsection \<open>What the transport is bound to\<close>

text \<open>The streams a writer writes to, and the stream a reader reads.\<close>

definition target_conns :: "target list \<Rightarrow> nat list" where
  "target_conns ts = concat (map (\<lambda>t. case t of ToConn sid \<Rightarrow> [sid] | ToSink d \<Rightarrow> []) ts)"

definition iowriter_conns :: "iowriter \<Rightarrow> nat list" where
  "iowriter_conns w = (case w of Plain t \<Rightarrow> target_conns [t] | MultiWriter ts \<Rightarrow> target_conns ts)"

definition ioreader_conn :: "ioreader \<Rightarrow> nat" where
  "ioreader_conn r = (case r of FromConn sid \<Rightarrow> sid | TeeReader sid d \<Rightarrow> sid)"

text \<open>
  The buffered reader and the buffered writer exist and work on the current stream.
\<close>

definition bound :: "Conn \<Rightarrow> bool" where
  "bound c \<longleftrightarrow>
     (case bw c of None \<Rightarrow> False | Some b \<Rightarrow> iowriter_conns (wr b) = [Conn c]) \<and>
     (case br c of None \<Rightarrow> False | Some b \<Rightarrow> ioreader_conn (rd b) = Conn c)"

text \<open>
  The writers and the values of \<open>Writer.Writer\<close> that \<open>init\<close> makes: the stream comes
  first in the writer, \<open>c.bw\<close> first among the flushers.
\<close>

fun writes_to :: "iowriter \<Rightarrow> nat option" where
  "writes_to (Plain (ToConn sid)) = Some sid"
| "writes_to (MultiWriter [ToConn sid, ToSink d]) = Some sid"
| "writes_to _ = None"

fun made_by_init :: "writer_iface \<Rightarrow> bool" where
  "made_by_init WBw = True"
| "made_by_init (WStruct [FBw, FConn sid]) = True"
| "made_by_init _ = False"

definition wired :: "Conn \<Rightarrow> bool" where
  "wired c \<longleftrightarrow>
     (case bw c of None \<Rightarrow> False | Some b \<Rightarrow> writes_to (wr b) = Some (Conn c)) \<and>
     (case br c of None \<Rightarrow> False | Some b \<Rightarrow> ioreader_conn (rd b) = Conn c) \<and>
     made_by_init (Writer_Writer c)"

text \<open>The flushers a flush of the transport calls, in order.\<close>

definition flush_strategy :: "Conn \<Rightarrow> flusher_ref list" where
  "flush_strategy c = (case Writer_Writer c of WNil \<Rightarrow> [] | WBw \<Rightarrow> [FBw] | WStruct fs \<Rightarrow> fs)"

text \<open>An endpoint takes \<open>n\<close> more bytes without an error.\<close>

definition accepts :: "endpoint \<Rightarrow> nat \<Rightarrow> bool" where
  "accepts ep n = (case room ep of None \<Rightarrow> True | Some k \<Rightarrow> n \<le> k)"

subsection \<open>A store to run the transport on\<close>

text \<open>
  Streams that take every byte and have no \<open>Flush\<close> method, but stream 0, which has
  one, stream 2, whose writes fail, and stream 3, on which two bytes arrive; sinks
  that take every byte, but sink 1, which is full.
\<close>

definition plain_conn :: netconn where
  "plain_conn = \<lparr>wire = \<lparr>accepted = [], room = None, failure = Error ''closed''\<rparr>, incoming = [],
     read_failure = Error ''EOF'', has_Flush = False, flush_result = None, flush_calls = 0,
     LocalAddr = None, RemoteAddr = None\<rparr>"

definition world0 :: world where
  "world0 = \<lparr>conns = (\<lambda>_. plain_conn)
               (0 := plain_conn\<lparr>has_Flush := True\<rparr>,
                2 := plain_conn\<lparr>wire := \<lparr>accepted = [], room = Some 0, failure = Error ''broken pipe''\<rparr>\<rparr>,
                3 := plain_conn\<lparr>incoming := ''OK''\<rparr>),
     sinks = (\<lambda>_. \<lparr>accepted = [], room = None, failure = Error ''sink''\<rparr>)
               (1 := \<lparr>accepted = [], room = Some 0, failure = Error ''sink''\<rparr>),
     fieldwriters = (\<lambda>_. \<lparr>fields_set = Map.empty, Writer_of = None\<rparr>)\<rparr>"

text \<open>
  What \<open>init\<close> is compared with: the two writers \<open>localDebug\<close> and \<open>remoteDebug\<close> it
  finds for a transport, and the writer and the reader it binds the buffers to for
  a stream and such a writer (\<open>None\<close>: that side has no sink).
\<close>

definition tap_sides :: "Conn \<Rightarrow> world \<Rightarrow> nat option \<times> nat option" where
  "tap_sides c W = (case debug c of None \<Rightarrow> (None, None) | Some d \<Rightarrow> fst (debug_sides d (Conn c) W))"

definition tapped_writer :: "nat \<Rightarrow> nat option \<Rightarrow> iowriter" where
  "tapped_writer sid l = (case l of None \<Rightarrow> Plain (ToConn sid) | Some d \<Rightarrow> MultiWriter [ToConn sid, ToSink d])"

definition tapped_reader :: "nat \<Rightarrow> nat option \<Rightarrow> ioreader" where
  "tapped_reader sid r = (case r of None \<Rightarrow> FromConn sid | Some d \<Rightarrow> TeeReader sid d)"

text \<open>The transports \<open>NewConn\<close> makes on stream 0 and on stream 2 of the store.\<close>

definition conn0 :: Conn where
  "conn0 = \<lparr>Conn = 0, Reader_reader = RBr, Writer_Writer = WStruct [FBw, FConn 0],
      br = Some \<lparr>rbuf = [], rd = FromConn 0\<rparr>,
      bw = Some \<lparr>wbuf = [], werr = None, wr = Plain (ToConn 0)\<rparr>, waits = None, debug = None\<rparr>"

definition conn2 :: Conn where
  "conn2 = \<lparr>Conn = 2, Reader_reader = RBr, Writer_Writer = WBw,
      br = Some \<lparr>rbuf = [], rd = FromConn 2\<rparr>,
      bw = Some \<lparr>wbuf = [], werr = None, wr = Plain (ToConn 2)\<rparr>, waits = None, debug = None\<rparr>"

section \<open>Properties of the LIST response\<close>

text \<open>The two maps of \<open>intersection\<close> and \<open>removeDups\<close> hold the elements seen so far.\<close>

lemma lookup_upd: "lookup (h(k \<mapsto> True)) e \<longleftrightarrow> e = k \<or> lookup h e"
  by (simp add: lookup_def)

lemma lookup_empty: "\<not> lookup Map.empty e"
  by (simp add: lookup_def)

lemma lookup_hash_fill: "lookup (hash_fill s1 h) e \<longleftrightarrow> e \<in> set s1 \<or> lookup h e"
  by (induction s1 arbitrary: h) (auto simp: lookup_upd)

lemma inter_loop_filter: "inter_loop h s2 acc = acc @ filter (lookup h) s2"
  by (induction s2 arbitrary: acc) auto

lemma removeDups_loop_fold:
  "(\<And>x. lookup enc x \<longleftrightarrow> x \<in> set nodups) \<Longrightarrow> removeDups_loop xs enc nodups = fold add_once xs nodups"
proof (induction xs arbitrary: enc nodups)
  case Nil then show ?case by simp
next
  case (Cons x xs)
  show ?case
  proof (cases "x \<in> set nodups")
    case True
    with Cons.prems have "lookup enc x" by simp
    with True Cons show ?thesis by (simp add: add_once_def)
  next
    case False
    with Cons.prems have n: "\<not> lookup enc x" by simp
    have "\<And>y. lookup (enc(x \<mapsto> True)) y \<longleftrightarrow> y \<in> set (nodups @ [x])"
      using Cons.prems by (auto simp: lookup_upd)
    then have "removeDups_loop xs (enc(x \<mapsto> True)) (nodups @ [x]) = fold add_once xs (nodups @ [x])"
      by (rule Cons.IH)
    moreover have "removeDups_loop (x # xs) enc nodups = removeDups_loop xs (enc(x \<mapsto> True)) (nodups @ [x])"
      using n by simp
    moreover have "fold add_once (x # xs) nodups = fold add_once xs (nodups @ [x])"
      using False by (simp add: add_once_def)
    ultimately show ?thesis by simp
  qed
qed

lemma removeDups_fold: "removeDups xs = fold add_once xs []"
  unfolding removeDups_def by (rule removeDups_loop_fold) (simp add: lookup_empty)

lemma set_fold_add_once: "set (fold add_once xs acc) = set acc \<union> set xs"
  by (induction xs arbitrary: acc) (auto simp: add_once_def)

lemma distinct_fold_add_once: "distinct acc \<Longrightarrow> distinct (fold add_once xs acc)"
  by (induction xs arbitrary: acc) (auto simp: add_once_def)

lemma intersection_fold: "intersection s1 s2 = fold add_once (filter (\<lambda>e. e \<in> set s1) s2) []"
proof -
  have "lookup (hash_fill s1 Map.empty) = (\<lambda>e. e \<in> set s1)"
    by (rule ext) (simp add: lookup_hash_fill lookup_empty)
  then show ?thesis by (simp add: intersection_def inter_loop_filter removeDups_fold)
qed

lemma set_intersection: "set (intersection s1 s2) = set s1 \<inter> set s2"
  by (auto simp: intersection_fold set_fold_add_once)

lemma distinct_intersection: "distinct (intersection s1 s2)"
  by (simp add: intersection_fold distinct_fold_add_once)

lemma length_intersection: "length (intersection s1 s2) = card (set s1 \<inter> set s2)"
  using distinct_card[OF distinct_intersection, of s1 s2] by (simp add: set_intersection)

lemma WriteTo_loop_single:
  "WriteTo_loop format put rn su [mbox] w =
     (if su \<and> set (Attributes mbox) \<inter> set specialuse = {} then (None, [], w)
      else (case put ([RawString rn] @ format mbox) w of (err, w') \<Rightarrow> (err, [], w')))"
proof -
  have "length (intersection (Attributes mbox) specialuse) = 0
        \<longleftrightarrow> set (Attributes mbox) \<inter> set specialuse = {}"
    using set_intersection[of "Attributes mbox" specialuse] by auto
  moreover obtain e w' where "put (RawString rn # format mbox) w = (e, w')"
    by (cases "put (RawString rn # format mbox) w")
  ultimately show ?thesis by (cases e) auto
qed

text \<open>
  Claim C3. The intersection is computed by membership and has no duplicates: its
  elements are those of both lists, each once, so its length is the number of common
  tokens; it lists the common tokens in the order of their first match in the list
  that is scanned (the second argument, the vocabulary when \<open>WriteTo\<close> calls it), as
  insertion into an ordered set does; a token repeated in the first list (the
  attributes of the mailbox) changes nothing; and a record gives one response line
  at most, written when its attributes and the vocabulary share a token.
\<close>

theorem intersection_duplicate_free:
  "set (intersection s1 s2) = set s1 \<inter> set s2
   \<and> distinct (intersection s1 s2)
   \<and> length (intersection s1 s2) = card (set s1 \<inter> set s2)
   \<and> intersection s1 s2 = fold add_once (filter (\<lambda>e. e \<in> set s1) s2) []
   \<and> intersection (a # a # s1) s2 = intersection (a # s1) s2
   \<and> intersection (remdups s1) s2 = intersection s1 s2
   \<and> WriteTo_loop format put rn su [mbox] w =
       (if su \<and> set (Attributes mbox) \<inter> set specialuse = {} then (None, [], w)
        else (case put ([RawString rn] @ format mbox) w of (err, w') \<Rightarrow> (err, [], w')))"
proof (intro conjI)
  show "intersection (a # a # s1) s2 = intersection (a # s1) s2"
    by (simp add: intersection_fold)
  show "intersection (remdups s1) s2 = intersection s1 s2"
    by (simp add: intersection_fold)
qed (rule set_intersection distinct_intersection length_intersection intersection_fold
       WriteTo_loop_single)+

theorem intersection_duplicate_free_witness:
  "set (intersection [flag ''Sent'', flag ''Sent'', flag ''Noselect''] specialuse) = {flag ''Sent''}
   \<and> distinct (intersection [flag ''Sent'', flag ''Sent'', flag ''Noselect''] specialuse)
   \<and> length (intersection [flag ''Sent'', flag ''Sent'', flag ''Noselect''] specialuse) = 1
   \<and> intersection [flag ''Sent'', flag ''Sent'', flag ''Noselect''] specialuse = [flag ''Sent'']
   \<and> intersection [''b'', ''a'', ''b''] [''a'', ''c'', ''b'', ''a''] = [''a'', ''b'']
   \<and> WriteTo_loop (\<lambda>m. [Str (Name m)]) record_line ''LIST'' True
         [\<lparr>Attributes = [flag ''Sent'', flag ''Sent'', flag ''Noselect''], Delimiter = ''/'', Name = ''Sent''\<rparr>] []
       = (None, [], [[RawString ''LIST'', Str ''Sent'']])"
proof -
  let ?a = "[flag ''Sent'', flag ''Sent'', flag ''Noselect'']"
  let ?m = "\<lparr>Attributes = ?a, Delimiter = ''/'', Name = ''Sent''\<rparr>"
  have i: "set ?a \<inter> set specialuse = {flag ''Sent''}"
    by (simp add: specialuse_def flag_def)
  have f: "filter (\<lambda>e. e \<in> set ?a) specialuse = [flag ''Sent'']"
    by (simp add: specialuse_def flag_def)
  note t = intersection_duplicate_free[where ?s1.0 = ?a and ?s2.0 = specialuse and a = "flag ''Sent''"
      and format = "\<lambda>m. [Str (Name m)]" and put = record_line and rn = "''LIST''" and su = True
      and mbox = ?m and w = "[]"]
  note c1 = t[THEN conjunct1]
  note c2 = t[THEN conjunct2, THEN conjunct1]
  note c3 = t[THEN conjunct2, THEN conjunct2, THEN conjunct1]
  note c4 = t[THEN conjunct2, THEN conjunct2, THEN conjunct2, THEN conjunct1]
  note c7 = t[THEN conjunct2, THEN conjunct2, THEN conjunct2, THEN conjunct2, THEN conjunct2,
      THEN conjunct2]
  have 1: "set (intersection ?a specialuse) = {flag ''Sent''}"
    using c1 i by (rule trans)
  have 2: "distinct (intersection ?a specialuse)"
    by (rule c2)
  have "length (intersection ?a specialuse) = card {flag ''Sent''}"
    using c3 unfolding i .
  then have 3: "length (intersection ?a specialuse) = 1"
    by simp
  have "intersection ?a specialuse = fold add_once [flag ''Sent''] []"
    using c4 unfolding f .
  then have 4: "intersection ?a specialuse = [flag ''Sent'']"
    by (simp add: add_once_def)
  have a: "Attributes ?m = ?a" by simp
  have n: "{flag ''Sent''} \<noteq> {}" by simp
  have "WriteTo_loop (\<lambda>m. [Str (Name m)]) record_line ''LIST'' True [?m] []
          = (case record_line ([RawString ''LIST''] @ [Str (Name ?m)]) [] of (err, w') \<Rightarrow> (err, [], w'))"
    using c7 unfolding a i by (simp only: n simp_thms if_False)
  then have 5: "WriteTo_loop (\<lambda>m. [Str (Name m)]) record_line ''LIST'' True [?m] []
          = (None, [], [[RawString ''LIST'', Str ''Sent'']])"
    by (simp add: record_line_def)
  have g: "filter (\<lambda>e. e \<in> set [''b'', ''a'', ''b'']) [''a'', ''c'', ''b'', ''a''] = [''a'', ''b'', ''a'']"
    by simp
  have "intersection [''b'', ''a'', ''b''] [''a'', ''c'', ''b'', ''a''] = fold add_once [''a'', ''b'', ''a''] []"
    using intersection_duplicate_free[where ?s1.0 = "[''b'', ''a'', ''b'']"
        and ?s2.0 = "[''a'', ''c'', ''b'', ''a'']", THEN conjunct2, THEN conjunct2, THEN conjunct2,
        THEN conjunct1]
    unfolding g .
  then have 6: "intersection [''b'', ''a'', ''b''] [''a'', ''c'', ''b'', ''a''] = [''a'', ''b'']"
    by (simp add: add_once_def)
  from 1 2 3 4 6 5 show ?thesis by (intro conjI)
qed

text \<open>The drain of \<open>WriteTo\<close> writes the responses of the records that pass the test, in order.\<close>

lemma specialuse_member:
  "set [] \<inter> set specialuse = {}"
  "set [flag ''Archive''] \<inter> set specialuse \<noteq> {}"
  "set [flag ''Noselect''] \<inter> set specialuse = {}"
  "set [flag ''Sent'', flag ''Noselect''] \<inter> set specialuse \<noteq> {}"
  by (simp_all add: specialuse_def flag_def)

lemma filter_empty: "length (intersection s1 s2) = 0 \<longleftrightarrow> set s1 \<inter> set s2 = {}"
  using set_intersection[of s1 s2] by auto

lemma WriteTo_loop_Cons:
  "WriteTo_loop format put rn su (m # ms) w =
     (if \<not> emitted su m then WriteTo_loop format put rn su ms w
      else (case put (RawString rn # format m) w of
              (Some err, w') \<Rightarrow> (Some err, ms, w')
            | (None, w') \<Rightarrow> WriteTo_loop format put rn su ms w'))"
  by (simp add: emitted_def)

lemma WriteTo_loop_write_lines:
  "(case WriteTo_loop format put rn su ms w of (err, rest, w') \<Rightarrow> (err, w'))
     = write_lines put (map (\<lambda>m. [RawString rn] @ format m) (filter (emitted su) ms)) w"
proof (induction ms arbitrary: w)
  case Nil
  then show ?case by simp
next
  case (Cons m ms)
  show ?case
  proof (cases "emitted su m")
    case False
    then show ?thesis using Cons.IH[of w] by (simp add: WriteTo_loop_Cons del: WriteTo_loop.simps)
  next
    case True
    obtain e w1 where r: "put (RawString rn # format m) w = (e, w1)"
      by (cases "put (RawString rn # format m) w")
    show ?thesis
    proof (cases e)
      case None
      with True r show ?thesis using Cons.IH[of w1]
        by (simp add: WriteTo_loop_Cons del: WriteTo_loop.simps)
    next
      case (Some err)
      with True r show ?thesis by (simp add: WriteTo_loop_Cons del: WriteTo_loop.simps)
    qed
  qed
qed

lemma WriteTo_loop_record_line:
  "WriteTo_loop format record_line rn su ms w
     = (None, [], w @ map (\<lambda>m. [RawString rn] @ format m) (filter (emitted su) ms))"
proof (induction ms arbitrary: w)
  case Nil
  then show ?case by simp
next
  case (Cons m ms)
  have "record_line (RawString rn # format m) w = (None, w @ [RawString rn # format m])"
    by (simp add: record_line_def)
  with Cons show ?case by (simp add: WriteTo_loop_Cons del: WriteTo_loop.simps)
qed

lemma emitted_attrs:
  "emitted su m \<longleftrightarrow> \<not> su \<or> set (Attributes m) \<inter> set specialuse \<noteq> {}"
  unfolding emitted_def filter_empty by blast

lemma emitted_examples:
  "emitted True (m\<lparr>Attributes := []\<rparr>) = False"
  "emitted True (m\<lparr>Attributes := [flag ''Archive'']\<rparr>) = True"
  "emitted True (m\<lparr>Attributes := [flag ''Noselect'']\<rparr>) = False"
  "emitted True (m\<lparr>Attributes := [flag ''Sent'', flag ''Noselect'']\<rparr>) = True"
  "emitted False m = True"
  by (simp_all add: emitted_attrs specialuse_def flag_def)

text \<open>
  Claim C5. Four records with the attributes \<open>{}\<close>, \<open>{\Archive}\<close>, \<open>{\Noselect}\<close> and
  \<open>{\Sent, \Noselect}\<close>, any names and delimiters, drained by \<open>WriteTo\<close> into any
  writer: with \<open>SpecialUse\<close> set, the responses written are those of the second and the
  fourth record, in that order; with \<open>SpecialUse\<close> unset, those of all four, in the
  order received; one response per record. For the writer that records its responses
  the result is given in full.
\<close>

theorem WriteTo_special_use_example:
  fixes m1 m2 m3 m4 :: MailboxInfo and sub :: bool
  defines "a1 \<equiv> m1\<lparr>Attributes := []\<rparr>"
    and "a2 \<equiv> m2\<lparr>Attributes := [flag ''Archive'']\<rparr>"
    and "a3 \<equiv> m3\<lparr>Attributes := [flag ''Noselect'']\<rparr>"
    and "a4 \<equiv> m4\<lparr>Attributes := [flag ''Sent'', flag ''Noselect'']\<rparr>"
    and "rn \<equiv> (if sub then ''LSUB'' else ''LIST'')"
  shows "(case WriteTo format put \<lparr>Mailboxes = [a1, a2, a3, a4], Subscribed = sub, SpecialUse = True\<rparr> w
            of (err, r', w') \<Rightarrow> (err, w'))
          = write_lines put [[RawString rn] @ format a2, [RawString rn] @ format a4] w
       \<and> (case WriteTo format put \<lparr>Mailboxes = [a1, a2, a3, a4], Subscribed = sub, SpecialUse = False\<rparr> w
            of (err, r', w') \<Rightarrow> (err, w'))
          = write_lines put [[RawString rn] @ format a1, [RawString rn] @ format a2,
                            [RawString rn] @ format a3, [RawString rn] @ format a4] w
       \<and> WriteTo format record_line \<lparr>Mailboxes = [a1, a2, a3, a4], Subscribed = sub, SpecialUse = True\<rparr> []
          = (None, \<lparr>Mailboxes = [], Subscribed = sub, SpecialUse = True\<rparr>,
             [[RawString rn] @ format a2, [RawString rn] @ format a4])
       \<and> WriteTo format record_line \<lparr>Mailboxes = [a1, a2, a3, a4], Subscribed = sub, SpecialUse = False\<rparr> []
          = (None, \<lparr>Mailboxes = [], Subscribed = sub, SpecialUse = False\<rparr>,
             [[RawString rn] @ format a1, [RawString rn] @ format a2,
              [RawString rn] @ format a3, [RawString rn] @ format a4])"
proof -
  have n: "Name_of \<lparr>Mailboxes = ms, Subscribed = sub, SpecialUse = su\<rparr> = rn" for ms su
    by (simp add: Name_of_def rn_def lsubName_def listName_def)
  have f: "filter (emitted True) [a1, a2, a3, a4] = [a2, a4]"
          "filter (emitted False) [a1, a2, a3, a4] = [a1, a2, a3, a4]"
    unfolding a1_def a2_def a3_def a4_def by (simp_all only: filter.simps emitted_examples if_True if_False)
  have w: "(case WriteTo format put \<lparr>Mailboxes = ms, Subscribed = sub, SpecialUse = su\<rparr> w
              of (err, r', w') \<Rightarrow> (err, w'))
           = write_lines put (map (\<lambda>m. [RawString rn] @ format m) (filter (emitted su) ms)) w" for ms su
    using WriteTo_loop_write_lines[of format put rn su ms w]
    by (simp add: WriteTo_def n split: prod.splits)
  have r: "WriteTo format record_line \<lparr>Mailboxes = ms, Subscribed = sub, SpecialUse = su\<rparr> []
           = (None, \<lparr>Mailboxes = [], Subscribed = sub, SpecialUse = su\<rparr>,
              map (\<lambda>m. [RawString rn] @ format m) (filter (emitted su) ms))" for ms su
    by (simp add: WriteTo_def n WriteTo_loop_record_line)
  show ?thesis by (simp only: w r f list.map simp_thms)
qed

text \<open>
  Claim C4. \<open>Handle\<close> has three outcomes: the sentinel \<open>ErrUnhandled\<close> with the channel
  as it was; the error of \<open>Parse\<close> with the channel as it was, for a response of the
  handler's name whose fields do not parse; or \<open>nil\<close> with exactly one record, the
  parsed one, sent on the channel.
\<close>

theorem Handle_outcomes:
  "Handle pnr parse r resp = (Some ErrUnhandled, r)
   \<or> (\<exists>flds err. pnr resp = (Name_of r, flds, True) \<and> parse flds = Inl err
          \<and> Handle pnr parse r resp = (Some err, r))
   \<or> (\<exists>flds mbox. pnr resp = (Name_of r, flds, True) \<and> parse flds = Inr mbox
          \<and> Handle pnr parse r resp = (None, r\<lparr>Mailboxes := Mailboxes r @ [mbox]\<rparr>))"
  by (auto simp: Handle_def split: prod.splits sum.splits)

theorem Handle_outcomes_witness:
  "Handle (\<lambda>(n, f). (n, f, True)) (\<lambda>f. if f = [] then Inl (Error ''no fields'') else Inr \<lparr>Attributes = [], Delimiter = ''/'', Name = ''INBOX''\<rparr>)
      \<lparr>Mailboxes = [], Subscribed = False, SpecialUse = False\<rparr> (''LIST'', [Str ''INBOX''])
     = (None, \<lparr>Mailboxes = [\<lparr>Attributes = [], Delimiter = ''/'', Name = ''INBOX''\<rparr>], Subscribed = False, SpecialUse = False\<rparr>)
   \<and> Handle (\<lambda>(n, f). (n, f, True)) (\<lambda>f. if f = [] then Inl (Error ''no fields'') else Inr \<lparr>Attributes = [], Delimiter = ''/'', Name = ''INBOX''\<rparr>)
      \<lparr>Mailboxes = [], Subscribed = False, SpecialUse = False\<rparr> (''LIST'', [])
     = (Some (Error ''no fields''), \<lparr>Mailboxes = [], Subscribed = False, SpecialUse = False\<rparr>)
   \<and> Handle (\<lambda>(n, f). (n, f, True)) (\<lambda>f. if f = [] then Inl (Error ''no fields'') else Inr \<lparr>Attributes = [], Delimiter = ''/'', Name = ''INBOX''\<rparr>)
      \<lparr>Mailboxes = [], Subscribed = False, SpecialUse = False\<rparr> (''LSUB'', [Str ''INBOX''])
     = (Some ErrUnhandled, \<lparr>Mailboxes = [], Subscribed = False, SpecialUse = False\<rparr>)"
proof -
  let ?pnr = "\<lambda>(n :: string, f :: field list). (n, f, True)"
  let ?parse = "\<lambda>f :: field list. if f = [] then Inl (Error ''no fields'')
                  else Inr \<lparr>Attributes = [], Delimiter = ''/'', Name = ''INBOX''\<rparr>"
  let ?r = "\<lparr>Mailboxes = [], Subscribed = False, SpecialUse = False\<rparr>"
  have n: "Name_of ?r = ''LIST''" by (simp add: Name_of_def listName_def)
  show ?thesis
    using Handle_outcomes[of ?pnr ?parse ?r "(''LIST'', [Str ''INBOX''])"]
      Handle_outcomes[of ?pnr ?parse ?r "(''LIST'', [])"]
      Handle_outcomes[of ?pnr ?parse ?r "(''LSUB'', [Str ''INBOX''])"]
    by (simp add: n Handle_def)
qed

text \<open>
  Claim C6. \<open>Name\<close> is \<open>LSUB\<close> when \<open>Subscribed\<close> is set and \<open>LIST\<close> otherwise, whatever
  the other fields hold, and the two names differ. A response that carries the name of
  the other variant, or any name but the handler's, gets \<open>ErrUnhandled\<close> and leaves the
  handler and its channel untouched; whenever \<open>Handle\<close> returns anything else the
  response was a named one carrying the handler's name.
\<close>

theorem Name_selection:
  "Name_of r = (if Subscribed r then ''LSUB'' else ''LIST'')
   \<and> Name_of (r\<lparr>Mailboxes := ms, SpecialUse := su\<rparr>) = Name_of r
   \<and> Name_of (r\<lparr>Subscribed := \<not> Subscribed r\<rparr>) \<noteq> Name_of r
   \<and> (pnr resp = (Name_of (r\<lparr>Subscribed := \<not> Subscribed r\<rparr>), flds, ok)
        \<longrightarrow> Handle pnr parse r resp = (Some ErrUnhandled, r))
   \<and> (pnr resp = (name, flds, ok) \<and> name \<noteq> Name_of r
        \<longrightarrow> Handle pnr parse r resp = (Some ErrUnhandled, r))
   \<and> (pnr resp = (name, flds, ok) \<and> fst (Handle pnr parse r resp) \<noteq> Some ErrUnhandled
        \<longrightarrow> ok \<and> name = Name_of r)"
proof -
  have n: "Name_of r = (if Subscribed r then ''LSUB'' else ''LIST'')"
    by (simp add: Name_of_def lsubName_def listName_def)
  have o: "Name_of (r\<lparr>Subscribed := \<not> Subscribed r\<rparr>) \<noteq> Name_of r"
    by (simp add: Name_of_def lsubName_def listName_def)
  have d: "Handle pnr parse r resp = (Some ErrUnhandled, r)"
    if "pnr resp = (name, flds, ok)" "name \<noteq> Name_of r" for name
    using that by (simp add: Handle_def)
  have c: "ok \<and> name = Name_of r"
    if "pnr resp = (name, flds, ok)" "fst (Handle pnr parse r resp) \<noteq> Some ErrUnhandled"
    using that by (auto simp: Handle_def split: if_splits)
  have p: "Name_of (r\<lparr>Mailboxes := ms, SpecialUse := su\<rparr>) = Name_of r"
    by (simp add: Name_of_def)
  from n o p d c show ?thesis using d[OF _ o] by blast
qed

theorem Name_selection_witness:
  "Name_of \<lparr>Mailboxes = [], Subscribed = True, SpecialUse = False\<rparr> = ''LSUB''
   \<and> Name_of \<lparr>Mailboxes = [], Subscribed = False, SpecialUse = False\<rparr> = ''LIST''
   \<and> Handle (\<lambda>(n, f). (n, f, True)) (\<lambda>f. Inr \<lparr>Attributes = [], Delimiter = ''/'', Name = ''INBOX''\<rparr>)
        \<lparr>Mailboxes = [], Subscribed = True, SpecialUse = False\<rparr> (''LIST'', [])
       = (Some ErrUnhandled, \<lparr>Mailboxes = [], Subscribed = True, SpecialUse = False\<rparr>)
   \<and> Handle (\<lambda>(n, f). (n, f, True)) (\<lambda>f. Inr \<lparr>Attributes = [], Delimiter = ''/'', Name = ''INBOX''\<rparr>)
        \<lparr>Mailboxes = [], Subscribed = False, SpecialUse = False\<rparr> (''LSUB'', [])
       = (Some ErrUnhandled, \<lparr>Mailboxes = [], Subscribed = False, SpecialUse = False\<rparr>)
   \<and> fst (Handle (\<lambda>(n, f). (n, f, True)) (\<lambda>f. Inr \<lparr>Attributes = [], Delimiter = ''/'', Name = ''INBOX''\<rparr>)
        \<lparr>Mailboxes = [], Subscribed = True, SpecialUse = False\<rparr> (''LSUB'', [])) = None"
proof -
  let ?pnr = "\<lambda>(n :: string, f :: field list). (n, f, True)"
  let ?parse = "\<lambda>f :: field list. Inr \<lparr>Attributes = [], Delimiter = ''/'', Name = ''INBOX''\<rparr> :: error + MailboxInfo"
  let ?s = "\<lparr>Mailboxes = [], Subscribed = True, SpecialUse = False\<rparr>"
  let ?l = "\<lparr>Mailboxes = [], Subscribed = False, SpecialUse = False\<rparr>"
  have a: "?pnr (''LIST'', []) = (''LIST'', [], True)" "?pnr (''LSUB'', []) = (''LSUB'', [], True)"
    by simp_all
  have b: "?s\<lparr>Subscribed := \<not> Subscribed ?s\<rparr> = ?l" "?l\<lparr>Subscribed := \<not> Subscribed ?l\<rparr> = ?s"
    by simp_all
  note s = Name_selection[where r = ?s and pnr = ?pnr and resp = "(''LIST'', [])" and flds = "[]"
      and ok = True and parse = ?parse and name = "''LIST''"]
  note l = Name_selection[where r = ?l and pnr = ?pnr and resp = "(''LSUB'', [])" and flds = "[]"
      and ok = True and parse = ?parse and name = "''LSUB''"]
  have ns: "Name_of ?s = ''LSUB''" using s by simp
  have nl: "Name_of ?l = ''LIST''" using l by simp
  have hs: "Handle ?pnr ?parse ?s (''LIST'', []) = (Some ErrUnhandled, ?s)"
    using s by (simp only: a b nl)
  have hl: "Handle ?pnr ?parse ?l (''LSUB'', []) = (Some ErrUnhandled, ?l)"
    using l by (simp only: a b ns)
  have ok: "fst (Handle ?pnr ?parse ?s (''LSUB'', [])) = None"
    by (simp add: Handle_def ns)
  from ns nl hs hl ok show ?thesis by simp
qed

section \<open>Properties of the connection states\<close>

text \<open>The values of the constants, and the bits of 2 and of 6.\<close>

lemma ConnState_values:
  "NotAuthenticatedState = 1 \<and> AuthenticatedState = 2 \<and> SelectedState = 6 \<and> LogoutState = 8 \<and> ConnectedState = 7"
  by (simp add: NotAuthenticatedState_def AuthenticatedState_def SelectedState_def LogoutState_def ConnectedState_def)

lemma bit2: "bit (2::int) n \<longleftrightarrow> n = 1"
  by (cases n) (auto simp: bit_Suc bit_0 bit_1_iff)

lemma bit6: "bit (6::int) n \<longleftrightarrow> n = 1 \<or> n = 2"
proof (cases n)
  case 0 then show ?thesis by (simp add: bit_0)
next
  case (Suc m)
  have "(6::int) div 2 = 3" by simp
  then have a: "bit (6::int) (Suc m) = bit (3::int) m" by (simp add: bit_Suc)
  show ?thesis
  proof (cases m)
    case 0 with Suc a show ?thesis by (simp add: bit_0)
  next
    case (Suc k)
    have "(3::int) div 2 = 1" by simp
    then have "bit (3::int) (Suc k) = bit (1::int) k" by (simp add: bit_Suc)
    with Suc \<open>n = Suc m\<close> a show ?thesis by (auto simp: bit_1_iff)
  qed
qed

lemma Authenticated_bits: "{n. bit (2::int) n} \<subset> {n. bit (6::int) n}"
proof (rule psubsetI)
  show "{n. bit (2::int) n} \<subseteq> {n. bit (6::int) n}"
    by (simp add: Collect_mono_iff bit2 bit6)
  have "(2::nat) \<in> {n. bit (6::int) n}" "(2::nat) \<notin> {n. bit (2::int) n}"
    by (simp_all add: bit2 bit6)
  then show "{n. bit (2::int) n} \<noteq> {n. bit (6::int) n}" by blast
qed

text \<open>
  Claim C9. The bits of \<open>AuthenticatedState\<close> are a proper subset of the bits of
  \<open>SelectedState\<close>, and \<open>ConnectedState\<close> is the bitwise union of
  \<open>NotAuthenticatedState\<close>, \<open>AuthenticatedState\<close> and \<open>SelectedState\<close>, the value 7.
\<close>

theorem ConnState_bitmask:
  "{n. bit AuthenticatedState n} \<subset> {n. bit SelectedState n}
   \<and> SelectedState AND AuthenticatedState = AuthenticatedState
   \<and> SelectedState \<noteq> AuthenticatedState
   \<and> ConnectedState = NotAuthenticatedState OR AuthenticatedState OR SelectedState
   \<and> ConnectedState = 7"
proof -
  have v: "NotAuthenticatedState = 1" "AuthenticatedState = 2" "SelectedState = 6" "ConnectedState = 7"
    using ConnState_values by simp_all
  have "(6::int) AND 2 = 2" by simp
  moreover have "(1::int) OR 2 OR 6 = 7" by simp
  ultimately show ?thesis using Authenticated_bits by (simp add: v)
qed

section \<open>Properties of the flush aggregator\<close>

text \<open>The aggregate over a list that is split in two runs the first part, then the second.\<close>

lemma multiFlusher_Flush_append:
  "multiFlusher_Flush Flush fs1 s = (None, s1)
   \<Longrightarrow> multiFlusher_Flush Flush (fs1 @ fs2) s = multiFlusher_Flush Flush fs2 s1"
proof (induction fs1 arbitrary: s)
  case Nil
  then show ?case by simp
next
  case (Cons f fs1)
  obtain r s' where fl: "Flush f s = (r, s')" by (cases "Flush f s")
  show ?case
  proof (cases r)
    case None
    with Cons fl show ?thesis by simp
  next
    case (Some e)
    with Cons.prems fl show ?thesis by simp
  qed
qed

lemma multiFlusher_Flush_stops:
  "multiFlusher_Flush Flush fs1 s = (None, s1) \<Longrightarrow> Flush f s1 = (Some e, s2)
   \<Longrightarrow> multiFlusher_Flush Flush (fs1 @ f # fs2) s = (Some e, s2)"
  by (simp add: multiFlusher_Flush_append)

lemma multiFlusher_Flush_error_origin:
  "multiFlusher_Flush Flush fs s = (Some e, s')
   \<Longrightarrow> \<exists>fs1 f fs2 s1. fs = fs1 @ f # fs2 \<and> multiFlusher_Flush Flush fs1 s = (None, s1)
         \<and> Flush f s1 = (Some e, s')"
proof (induction fs arbitrary: s)
  case Nil
  then show ?case by simp
next
  case (Cons f fs)
  obtain r t where fl: "Flush f s = (r, t)" by (cases "Flush f s")
  show ?case
  proof (cases r)
    case (Some e')
    with Cons.prems fl have "e' = e" "t = s'" by simp_all
    with Some fl have "f # fs = [] @ f # fs \<and> multiFlusher_Flush Flush [] s = (None, s)
        \<and> Flush f s = (Some e, s')" by simp
    then show ?thesis by blast
  next
    case None
    with Cons.prems fl have "multiFlusher_Flush Flush fs t = (Some e, s')" by simp
    from Cons.IH[OF this] obtain fs1 g fs2 s1 where
      h: "fs = fs1 @ g # fs2" "multiFlusher_Flush Flush fs1 t = (None, s1)" "Flush g s1 = (Some e, s')"
      by blast
    from h(2) None fl have "multiFlusher_Flush Flush (f # fs1) s = (None, s1)" by simp
    with h(1,3) have "f # fs = (f # fs1) @ g # fs2 \<and> multiFlusher_Flush Flush (f # fs1) s = (None, s1)
        \<and> Flush g s1 = (Some e, s')" by simp
    then show ?thesis by blast
  qed
qed

lemma multiFlusher_Flush_all_succeed:
  "(\<And>f t. f \<in> set fs \<Longrightarrow> fst (Flush f t) = None)
   \<Longrightarrow> multiFlusher_Flush Flush fs s = (None, fold (\<lambda>f t. snd (Flush f t)) fs s)"
proof (induction fs arbitrary: s)
  case Nil
  then show ?case by simp
next
  case (Cons f fs)
  have "fst (Flush f s) = None" using Cons.prems by simp
  then obtain t where fl: "Flush f s = (None, t)" by (cases "Flush f s") simp
  have "multiFlusher_Flush Flush fs t = (None, fold (\<lambda>f t. snd (Flush f t)) fs t)"
    using Cons.prems by (intro Cons.IH) simp
  with fl show ?case by simp
qed

lemma multiFlusher_Flush_logged:
  "multiFlusher_Flush (logged_Flush res) fs log =
     (case find (\<lambda>i. res i \<noteq> None) fs of
        None \<Rightarrow> (None, log @ fs)
      | Some i \<Rightarrow> (res i, log @ takeWhile (\<lambda>i. res i = None) fs @ [i]))"
proof (induction fs arbitrary: log)
  case Nil
  then show ?case by simp
next
  case (Cons i fs)
  show ?case
  proof (cases "res i")
    case None
    then show ?thesis using Cons[of "log @ [i]"] by (simp add: logged_Flush_def split: option.splits)
  next
    case (Some e)
    then show ?thesis by (simp add: logged_Flush_def)
  qed
qed

text \<open>
  Claim C7. The aggregate flushes the sinks in the order of its list. When the sinks
  before \<open>f\<close> have been flushed without an error and the flush of \<open>f\<close> fails, the
  aggregate returns that error and the state of that moment, whatever sinks follow:
  none of them is flushed. An error the aggregate returns is always that of the
  first sink that failed. When no flush fails the aggregate returns \<open>nil\<close> after
  flushing every sink in order. For sinks that log their flush, the log is the list up
  to and including the first sink that fails.
\<close>

theorem multiFlusher_Flush_first_error:
  "(multiFlusher_Flush Flush fs1 s = (None, s1) \<and> Flush f s1 = (Some e, s2)
      \<longrightarrow> multiFlusher_Flush Flush (fs1 @ f # fs2) s = (Some e, s2))
   \<and> (multiFlusher_Flush Flush fs1 s = (None, s1)
      \<longrightarrow> multiFlusher_Flush Flush (fs1 @ fs2) s = multiFlusher_Flush Flush fs2 s1)
   \<and> (multiFlusher_Flush Flush fs s = (Some e, s')
      \<longrightarrow> (\<exists>fs1 f fs2 s1. fs = fs1 @ f # fs2 \<and> multiFlusher_Flush Flush fs1 s = (None, s1)
             \<and> Flush f s1 = (Some e, s')))
   \<and> ((\<forall>f t. f \<in> set fs \<longrightarrow> fst (Flush f t) = None)
      \<longrightarrow> multiFlusher_Flush Flush fs s = (None, fold (\<lambda>f t. snd (Flush f t)) fs s))
   \<and> multiFlusher_Flush (logged_Flush res) ids log =
       (case find (\<lambda>i. res i \<noteq> None) ids of
          None \<Rightarrow> (None, log @ ids)
        | Some i \<Rightarrow> (res i, log @ takeWhile (\<lambda>i. res i = None) ids @ [i]))"
  using multiFlusher_Flush_stops[of Flush fs1 s s1 f e s2 fs2]
    multiFlusher_Flush_append[of Flush fs1 s s1 fs2]
    multiFlusher_Flush_error_origin[of Flush fs s e s']
    multiFlusher_Flush_all_succeed[of fs Flush s]
    multiFlusher_Flush_logged[of res ids log]
  by blast

theorem multiFlusher_Flush_first_error_witness:
  "multiFlusher_Flush (logged_Flush (\<lambda>i. if i = 1 then Some (Error ''full'') else None)) [0, 1, 2] []
     = (Some (Error ''full''), [0, 1])
   \<and> multiFlusher_Flush (logged_Flush (\<lambda>i. None)) [0, 1, 2] [] = (None, [0, 1, 2])"
proof -
  let ?res = "\<lambda>i :: nat. if i = 1 then Some (Error ''full'') else None"
  let ?F = "logged_Flush ?res"
  have p: "multiFlusher_Flush ?F [0] [] = (None, [0])"
    by (simp add: logged_Flush_def)
  have q: "?F 1 [0] = (Some (Error ''full''), [0, 1])"
    by (simp add: logged_Flush_def)
  have "multiFlusher_Flush ?F ([0] @ 1 # [2]) [] = (Some (Error ''full''), [0, 1])"
    using multiFlusher_Flush_first_error[where Flush = ?F and ?fs1.0 = "[0]" and s = "[]"
        and ?s1.0 = "[0]" and f = 1 and e = "Error ''full''" and ?s2.0 = "[0, 1]" and ?fs2.0 = "[2]",
        THEN conjunct1] p q
    by blast
  moreover have "multiFlusher_Flush (logged_Flush (\<lambda>i. None)) [0, 1, 2] [] = (None, [0, 1, 2])"
    using multiFlusher_Flush_first_error[where Flush = "logged_Flush (\<lambda>i. None)" and fs = "[0, 1, 2]"
        and s = "[]", THEN conjunct2, THEN conjunct2, THEN conjunct2, THEN conjunct1]
    by (simp add: logged_Flush_def)
  ultimately show ?thesis by simp
qed

section \<open>Properties of the transport\<close>

subsection \<open>Flush and the wiring of the transport\<close>

text \<open>A flush changes the buffered writer of the transport and nothing else of it, and
  leaves the sink of the buffered writer in place.\<close>

lemma bufio_Flush_wr:
  "bufio_Flush b W = (e, b', W') \<Longrightarrow> wr b' = wr b"
  by (auto simp: bufio_Flush_def split: option.splits if_splits prod.splits)

lemma flusher_Flush_frame:
  "flusher_Flush f (c, W) = (e, c', W')
   \<Longrightarrow> c' = c\<lparr>bw := bw c'\<rparr> \<and> map_option wr (bw c') = map_option wr (bw c)"
  by (cases f) (auto simp: flusher_Flush_def netconn_Flush_def split: option.splits prod.splits
      dest: bufio_Flush_wr)

lemma multiFlusher_Flush_frame:
  "multiFlusher_Flush flusher_Flush fs (c, W) = (e, c', W')
   \<Longrightarrow> c' = c\<lparr>bw := bw c'\<rparr> \<and> map_option wr (bw c') = map_option wr (bw c)"
proof (induction fs arbitrary: c W)
  case Nil
  then show ?case by simp
next
  case (Cons f fs)
  obtain r c1 W1 where fl: "flusher_Flush f (c, W) = (r, c1, W1)"
    by (cases "flusher_Flush f (c, W)")
  note fr = flusher_Flush_frame[OF fl]
  show ?case
  proof (cases r)
    case (Some x)
    with Cons.prems fl have "c' = c1" by simp
    with fr show ?thesis by simp
  next
    case None
    with Cons.prems fl have "multiFlusher_Flush flusher_Flush fs (c1, W1) = (e, c', W')" by simp
    from Cons.IH[OF this] have a: "c' = c1\<lparr>bw := bw c'\<rparr>" and b: "map_option wr (bw c') = map_option wr (bw c1)"
      by simp_all
    from fr have "c1 = c\<lparr>bw := bw c1\<rparr>" by simp
    then have "c1\<lparr>bw := bw c'\<rparr> = c\<lparr>bw := bw c'\<rparr>"
      by (metis Conn.update_convs(5) Conn.surjective Conn.select_convs)
    with a b fr show ?thesis by simp
  qed
qed

lemma Conn_Flush_frame:
  "Conn_Flush c W = (e, c', W')
   \<Longrightarrow> c' = c\<lparr>bw := bw c'\<rparr> \<and> map_option wr (bw c') = map_option wr (bw c)"
proof -
  assume a: "Conn_Flush c W = (e, c', W')"
  have "Conn_Flush c W = Writer_Flush c W"
    by (simp add: Conn_Flush_def split: prod.splits option.splits)
  with a have w: "Writer_Flush c W = (e, c', W')" by simp
  show ?thesis
  proof (cases "Writer_Writer c")
    case WNil
    with w show ?thesis by (simp add: Writer_Flush_def)
  next
    case WBw
    with w show ?thesis using flusher_Flush_frame[of FBw c W e c' W'] by (simp add: Writer_Flush_def)
  next
    case (WStruct fs)
    with w show ?thesis using multiFlusher_Flush_frame[of fs c W e c' W'] by (simp add: Writer_Flush_def)
  qed
qed

text \<open>
  On a transport as \<open>init\<close> wires it, a flush leaves the write side of every stream
  as a write of the buffered bytes to the stream of the transport does, and a flush
  that succeeds leaves the buffer empty.
\<close>

lemma endpoint_Write_Nil: "endpoint_Write ep [] = ((0, None), ep)"
  by (cases "room ep") (simp_all add: endpoint_Write_def)

lemma netconn_Write_Nil: "wire (conns (snd (netconn_Write sid [] W)) t) = wire (conns W t)"
  by (simp add: netconn_Write_def endpoint_Write_Nil)

lemma sink_Write_conns: "conns (snd (sink_Write d p W)) = conns W"
  by (simp add: sink_Write_def split: prod.splits)

lemma io_Write_conns:
  "writes_to w = Some sid \<Longrightarrow> conns (snd (io_Write w p W)) = conns (snd (netconn_Write sid p W))"
proof (induction w rule: writes_to.induct)
  case (1 s)
  then show ?case by (simp add: io_Write_def target_Write_def)
next
  case (2 s d)
  obtain n e W1 where nw: "netconn_Write s p W = ((n, e), W1)"
    by (cases "netconn_Write s p W") auto
  have "conns (snd (multiWriter_Write [ToConn s, ToSink d] p W)) = conns W1"
    using nw sink_Write_conns[of d p W1]
    by (cases e) (auto simp: target_Write_def split: prod.splits option.splits)
  with 2 nw show ?case by (simp add: io_Write_def)
qed simp_all

lemma bufio_Flush_success:
  "bufio_Flush b W = (None, b', W') \<Longrightarrow> wbuf b' = [] \<and> werr b' = None \<and> wr b' = wr b"
  by (auto simp: bufio_Flush_def split: option.splits if_splits prod.splits)

lemma bufio_Flush_wire:
  "writes_to (wr b) = Some sid \<Longrightarrow> werr b = None \<Longrightarrow> bufio_Flush b W = (e, b', W')
   \<Longrightarrow> wire (conns W' t) = wire (conns (snd (netconn_Write sid (wbuf b) W)) t)"
proof -
  assume w: "writes_to (wr b) = Some sid" and n: "werr b = None" and f: "bufio_Flush b W = (e, b', W')"
  show ?thesis
  proof (cases "wbuf b = []")
    case True
    with n f have "W' = W" by (simp add: bufio_Flush_def)
    with True show ?thesis by (simp add: netconn_Write_Nil)
  next
    case False
    with n f have "W' = snd (io_Write (wr b) (wbuf b) W)"
      by (auto simp: bufio_Flush_def split: prod.splits option.splits if_splits)
    with io_Write_conns[OF w, of "wbuf b" W] show ?thesis by simp
  qed
qed

lemma netconn_Flush_wire: "wire (conns (snd (netconn_Flush sid W)) t) = wire (conns W t)"
  by (simp add: netconn_Flush_def)

lemma made_by_init_cases:
  "made_by_init x \<Longrightarrow> x = WBw \<or> (\<exists>sid. x = WStruct [FBw, FConn sid])"
  by (induction x rule: made_by_init.induct) simp_all

lemma Writer_Flush_wired:
  assumes m: "made_by_init (Writer_Writer c)" and b: "bw c = Some b"
    and f: "Writer_Flush c W = (e, c', W')"
  shows "\<exists>e1 b1 W1. bufio_Flush b W = (e1, b1, W1) \<and> bw c' = Some b1 \<and> (e = None \<longrightarrow> e1 = None)
           \<and> (\<forall>t. wire (conns W' t) = wire (conns W1 t))"
proof -
  obtain e1 b1 W1 where bf: "bufio_Flush b W = (e1, b1, W1)" by (cases "bufio_Flush b W")
  from made_by_init_cases[OF m] show ?thesis
  proof
    assume "Writer_Writer c = WBw"
    with f b bf show ?thesis by (auto simp: Writer_Flush_def flusher_Flush_def)
  next
    assume "\<exists>sid. Writer_Writer c = WStruct [FBw, FConn sid]"
    then obtain sid where s: "Writer_Writer c = WStruct [FBw, FConn sid]" by blast
    show ?thesis
    proof (cases e1)
      case (Some x)
      with s f b bf show ?thesis by (auto simp: Writer_Flush_def flusher_Flush_def)
    next
      case None
      with s f b bf have "W' = snd (netconn_Flush sid W1)" "bw c' = Some b1"
        by (auto simp: Writer_Flush_def flusher_Flush_def split: prod.splits option.splits)
      with bf None show ?thesis by (simp add: netconn_Flush_wire)
    qed
  qed
qed

lemma Conn_Flush_Writer_Flush: "Conn_Flush c W = Writer_Flush c W"
  by (simp add: Conn_Flush_def split: prod.splits option.splits)

lemma Conn_Flush_delivers:
  assumes w: "wired c" and b: "bw c = Some b" and n: "werr b = None"
    and f: "Conn_Flush c W = (e, c', W')"
  shows "wire (conns W' t) = wire (conns (snd (netconn_Write (Conn c) (wbuf b) W)) t)"
proof -
  from w b have wt: "writes_to (wr b) = Some (Conn c)" and m: "made_by_init (Writer_Writer c)"
    by (simp_all add: wired_def)
  from f have "Writer_Flush c W = (e, c', W')" by (simp add: Conn_Flush_Writer_Flush)
  from Writer_Flush_wired[OF m b this] obtain e1 b1 W1 where
    h: "bufio_Flush b W = (e1, b1, W1)" "\<forall>t. wire (conns W' t) = wire (conns W1 t)" by blast
  from bufio_Flush_wire[OF wt n h(1), of t] h(2) show ?thesis by simp
qed

lemma Conn_Flush_success:
  assumes w: "wired c" and f: "Conn_Flush c W = (None, c', W')"
  shows "\<exists>b'. bw c' = Some b' \<and> wbuf b' = [] \<and> werr b' = None"
proof -
  from w obtain b where b: "bw c = Some b" by (auto simp: wired_def split: option.splits)
  from w have m: "made_by_init (Writer_Writer c)" by (simp add: wired_def)
  from f have "Writer_Flush c W = (None, c', W')" by (simp add: Conn_Flush_Writer_Flush)
  from Writer_Flush_wired[OF m b this] obtain b1 W1 where
    "bufio_Flush b W = (None, b1, W1)" "bw c' = Some b1" by auto
  with bufio_Flush_success[of b W b1 W1] show ?thesis by simp
qed

lemma wired_frame:
  "wired c \<Longrightarrow> c' = c\<lparr>bw := bw c'\<rparr> \<Longrightarrow> map_option wr (bw c') = map_option wr (bw c) \<Longrightarrow> wired c'"
proof -
  assume w: "wired c" and f: "c' = c\<lparr>bw := bw c'\<rparr>" and g: "map_option wr (bw c') = map_option wr (bw c)"
  from f have "Conn c' = Conn (c\<lparr>bw := bw c'\<rparr>)" "br c' = br (c\<lparr>bw := bw c'\<rparr>)"
    "Writer_Writer c' = Writer_Writer (c\<lparr>bw := bw c'\<rparr>)" by simp_all
  then have h: "Conn c' = Conn c" "br c' = br c" "Writer_Writer c' = Writer_Writer c" by simp_all
  from w g obtain b b' where "bw c = Some b" "bw c' = Some b'" "wr b' = wr b"
    by (cases "bw c"; cases "bw c'") (auto simp: wired_def)
  with w h show ?thesis by (auto simp: wired_def split: option.splits)
qed

lemma wired_waits: "wired (c\<lparr>waits := x\<rparr>) = wired c"
  by (auto simp: wired_def split: option.splits)

lemma wired_bound: "wired c \<Longrightarrow> bound c"
proof -
  assume w: "wired c"
  have "writes_to x = Some sid \<Longrightarrow> iowriter_conns x = [sid]" for x sid
    by (induction x rule: writes_to.induct) (simp_all add: iowriter_conns_def target_conns_def)
  with w show ?thesis by (auto simp: wired_def bound_def split: option.splits)
qed

text \<open>What \<open>init\<close> returns, field by field; it keeps a transport wired.\<close>

lemma SetField_conns: "conns (SetField fw k v W) = conns W"
  by (simp add: SetField_def)

lemma withField_conns: "conns (withField l r k v W) = conns W"
  by (simp add: withField_def SetField_conns Let_def split: option.splits)

lemma debug_sides_conns: "debug_sides d sid W = (sides, d', W') \<Longrightarrow> conns W' = conns W"
  by (cases d) (auto simp: debug_sides_def withField_conns Let_def split: option.splits prod.splits)

lemma init_fields:
  "Conn (fst (init c W)) = Conn c"
  "waits (fst (init c W)) = waits c"
  "map_option wr (bw (fst (init c W))) = Some (tapped_writer (Conn c) (fst (tap_sides c W)))"
  "map_option wbuf (bw (fst (init c W))) = Some []"
  "map_option werr (bw (fst (init c W))) = Some None"
  "map_option rd (br (fst (init c W))) = Some (tapped_reader (Conn c) (snd (tap_sides c W)))"
  "conns (snd (init c W)) = conns W"
  "Writer_Writer (fst (init c W)) =
     (if has_Flush (conns W (Conn c)) then WStruct [FBw, FConn (Conn c)]
      else if bw c = None then WBw else Writer_Writer c)"
  by (cases "debug c"; cases "br c"; cases "bw c";
      auto simp: init_def tap_sides_def tapped_writer_def tapped_reader_def Let_def NewWriter_def
        Writer_Reset_def NewReader_def Reader_Reset_def newMultiFlusher_def
        split: prod.splits option.splits dest: debug_sides_conns)+

lemma writes_to_tapped: "writes_to (tapped_writer sid l) = Some sid"
  by (cases l) (simp_all add: tapped_writer_def)

lemma reader_tapped: "ioreader_conn (tapped_reader sid r) = sid"
  by (cases r) (simp_all add: tapped_reader_def ioreader_conn_def)

lemma init_wired:
  assumes "bw c = None \<or> made_by_init (Writer_Writer c)"
  shows "wired (fst (init c W))"
proof -
  let ?c = "fst (init c W)"
  from init_fields(3)[of c W] obtain b where b: "bw ?c = Some b" "wr b = tapped_writer (Conn c) (fst (tap_sides c W))"
    by (cases "bw ?c") auto
  from init_fields(6)[of c W] obtain r where r: "br ?c = Some r" "rd r = tapped_reader (Conn c) (snd (tap_sides c W))"
    by (cases "br ?c") auto
  have "made_by_init (Writer_Writer ?c)"
    using assms by (auto simp: init_fields(8))
  with b r show ?thesis
    by (simp add: wired_def init_fields(1) writes_to_tapped reader_tapped)
qed

subsection \<open>Upgrade\<close>

text \<open>
  Claim C10. When the flush of the pending output fails, \<open>Upgrade\<close> returns that error
  with the transport and the store as the flush left them, for every upgrader: the
  upgrader is not called. The stream, the channel \<open>waits\<close> (so what \<open>Wait\<close> does), the
  buffered reader, the sink of the buffered writer, \<open>Writer.Writer\<close>, and the
  diagnostic writer are those of before the call; the buffered writer keeps the bytes
  the sink did not take and the error, as \<open>bufio\<close> does.
\<close>

theorem Upgrade_flush_failure:
  "Conn_Flush c W = (Some e, c1, W1) \<longrightarrow>
     Upgrade upgrader c W = (Some e, c1, W1)
     \<and> Conn c1 = Conn c \<and> waits c1 = waits c \<and> Wait c1 = Wait c
     \<and> br c1 = br c \<and> map_option wr (bw c1) = map_option wr (bw c)
     \<and> Writer_Writer c1 = Writer_Writer c \<and> Reader_reader c1 = Reader_reader c
     \<and> debug c1 = debug c"
proof
  assume a: "Conn_Flush c W = (Some e, c1, W1)"
  then have u: "Upgrade upgrader c W = (Some e, c1, W1)" by (simp add: Upgrade_def)
  from Conn_Flush_frame[OF a] have f: "c1 = c\<lparr>bw := bw c1\<rparr>" and g: "map_option wr (bw c1) = map_option wr (bw c)"
    by simp_all
  have "Conn (c\<lparr>bw := bw c1\<rparr>) = Conn c" "waits (c\<lparr>bw := bw c1\<rparr>) = waits c"
    "br (c\<lparr>bw := bw c1\<rparr>) = br c" "Writer_Writer (c\<lparr>bw := bw c1\<rparr>) = Writer_Writer c"
    "Reader_reader (c\<lparr>bw := bw c1\<rparr>) = Reader_reader c" "debug (c\<lparr>bw := bw c1\<rparr>) = debug c"
    by simp_all
  with f have h: "Conn c1 = Conn c" "waits c1 = waits c" "br c1 = br c" "Writer_Writer c1 = Writer_Writer c"
    "Reader_reader c1 = Reader_reader c" "debug c1 = debug c"
    by simp_all
  then have "Wait c1 = Wait c" by (simp add: Wait_def)
  with u g h show "Upgrade upgrader c W = (Some e, c1, W1)
     \<and> Conn c1 = Conn c \<and> waits c1 = waits c \<and> Wait c1 = Wait c
     \<and> br c1 = br c \<and> map_option wr (bw c1) = map_option wr (bw c)
     \<and> Writer_Writer c1 = Writer_Writer c \<and> Reader_reader c1 = Reader_reader c
     \<and> debug c1 = debug c" by simp
qed

lemma NewConn_conn2: "NewConn 2 world0 = (conn2, world0)"
  by (simp add: NewConn_def init_def NewReader_def NewWriter_def world0_def plain_conn_def conn2_def)

lemma conn2_Write:
  "Conn_Write conn2 ''a'' = ((1, None), conn2\<lparr>bw := Some \<lparr>wbuf = ''a'', werr = None, wr = Plain (ToConn 2)\<rparr>\<rparr>)"
  by (simp add: Conn_Write_def bufio_Write_def conn2_def)

lemma conn2_Flush:
  "\<exists>W1. Conn_Flush (conn2\<lparr>bw := Some \<lparr>wbuf = ''a'', werr = None, wr = Plain (ToConn 2)\<rparr>\<rparr>) world0
     = (Some (Error ''broken pipe''),
        conn2\<lparr>bw := Some \<lparr>wbuf = ''a'', werr = Some (Error ''broken pipe''), wr = Plain (ToConn 2)\<rparr>\<rparr>, W1)
     \<and> sinks W1 = sinks world0"
  by (simp add: Conn_Flush_def Writer_Flush_def flusher_Flush_def bufio_Flush_def io_Write_def
      target_Write_def netconn_Write_def endpoint_Write_def conn2_def world0_def plain_conn_def)

text \<open>
  Stream 2 takes no byte: the flush fails, and the upgrader, which would mark every
  sink, has not run.
\<close>

theorem Upgrade_flush_failure_witness:
  "(case NewConn 2 world0 of
      (c, W) \<Rightarrow>
        (case Conn_Write c ''a'' of
           (res, c1) \<Rightarrow>
             (case Upgrade (\<lambda>sid W. (Inr 1, W\<lparr>sinks := (\<lambda>d. (sinks W d)\<lparr>accepted := ''called''\<rparr>)\<rparr>)) c1 W of
                (e, c2, W2) \<Rightarrow>
                  e = Some (Error ''broken pipe'') \<and> Conn c2 = 2 \<and> waits c2 = None
                  \<and> Wait c2 = Returns \<and> map_option wr (bw c2) = Some (Plain (ToConn 2))
                  \<and> accepted (sinks W2 0) = [])))"
proof -
  let ?up = "\<lambda>(sid :: nat) W. (Inr 1 :: error + nat, W\<lparr>sinks := (\<lambda>d. (sinks W d)\<lparr>accepted := ''called''\<rparr>)\<rparr>)"
  let ?c1 = "conn2\<lparr>bw := Some \<lparr>wbuf = ''a'', werr = None, wr = Plain (ToConn 2)\<rparr>\<rparr>"
  let ?c2 = "conn2\<lparr>bw := Some \<lparr>wbuf = ''a'', werr = Some (Error ''broken pipe''), wr = Plain (ToConn 2)\<rparr>\<rparr>"
  from conn2_Flush obtain W1 where
    f: "Conn_Flush ?c1 world0 = (Some (Error ''broken pipe''), ?c2, W1)" and s: "sinks W1 = sinks world0"
    by blast
  from Upgrade_flush_failure[where c = ?c1 and W = world0 and e = "Error ''broken pipe''"
      and ?c1.0 = ?c2 and ?W1.0 = W1 and upgrader = ?up, THEN mp, OF f]
  have 1: "Upgrade ?up ?c1 world0 = (Some (Error ''broken pipe''), ?c2, W1)"
    and 2: "Wait ?c2 = Wait ?c1" "waits ?c2 = waits ?c1"
    by simp_all
  have 3: "Wait ?c1 = Returns" "waits ?c1 = None" "Conn ?c2 = 2"
    "map_option wr (bw ?c2) = Some (Plain (ToConn 2))"
    by (simp_all add: Wait_def conn2_def)
  have 4: "accepted (sinks W1 0) = []" by (simp add: s world0_def)
  from 1 2 3 4 show ?thesis by (simp add: NewConn_conn2 conn2_Write)
qed

lemma Conn_Write_wired:
  assumes w: "wired c" and b: "bw c = Some b" and n: "werr b = None"
  shows "Conn_Write c p = ((length p, None), c\<lparr>bw := Some (b\<lparr>wbuf := wbuf b @ p\<rparr>)\<rparr>)"
proof -
  from w have "made_by_init (Writer_Writer c)" by (simp add: wired_def)
  then have "Writer_Writer c \<noteq> WNil" by auto
  with b n show ?thesis
    by (cases "Writer_Writer c") (simp_all add: Conn_Write_def bufio_Write_def)
qed

lemma wired_bw_update:
  "wired c \<Longrightarrow> bw c = Some b \<Longrightarrow> wr b' = wr b \<Longrightarrow> wired (c\<lparr>bw := Some b'\<rparr>)"
  by (auto simp: wired_def split: option.splits)

lemma Upgrade_error_keeps_stream:
  assumes u: "Upgrade upgrader c W = (Some r, c', W')"
  shows "Conn c' = Conn c \<and> map_option wr (bw c') = map_option wr (bw c)"
proof -
  obtain r0 c1 W1 where f: "Conn_Flush c W = (r0, c1, W1)" by (cases "Conn_Flush c W")
  from Conn_Flush_frame[OF f] have fr: "c1 = c\<lparr>bw := bw c1\<rparr>" and wr: "map_option wr (bw c1) = map_option wr (bw c)"
    by simp_all
  from fr have "Conn c1 = Conn (c\<lparr>bw := bw c1\<rparr>)" by simp
  then have cc: "Conn c1 = Conn c" by simp
  show ?thesis
  proof (cases r0)
    case (Some e0)
    with f u have "c' = c1" by (simp add: Upgrade_def)
    with cc wr show ?thesis by simp
  next
    case None
    obtain x W2 where up: "upgrader (Conn c1) W1 = (x, W2)" by (cases "upgrader (Conn c1) W1")
    show ?thesis
    proof (cases x)
      case (Inl e1)
      with None f u up have "c' = c1\<lparr>waits := Some Closed\<rparr>" by (simp add: Upgrade_def)
      with cc wr show ?thesis by simp
    next
      case (Inr n)
      with None f u up show ?thesis by (simp add: Upgrade_def split: prod.splits)
    qed
  qed
qed

text \<open>
  Claim C2. When the upgrader is reached (the pending output was flushed) and returns
  an error, \<open>Upgrade\<close> returns that error; the transport is the one the flush left but
  for the channel \<open>waits\<close>, now closed: same stream, same sink of the buffered writer.
  On a transport wired by \<open>init\<close>, every later \<open>Write\<close> is taken in full and the
  following \<open>Flush\<close> leaves the write side of every stream as a write of those bytes
  to the stream of before the call leaves it. Whatever error \<open>Upgrade\<close> returns, that
  of the flush or that of the upgrader, the stream and the sink of the buffered writer
  are those of before the call.
\<close>

theorem Upgrade_upgrader_error:
  "(Conn_Flush c W = (None, c1, W1) \<and> upgrader (Conn c) W1 = (Inl e, W2) \<longrightarrow>
     Upgrade upgrader c W = (Some e, c1\<lparr>waits := Some Closed\<rparr>, W2)
     \<and> Conn (c1\<lparr>waits := Some Closed\<rparr>) = Conn c
     \<and> c1\<lparr>waits := Some Closed\<rparr> = c\<lparr>bw := bw c1, waits := Some Closed\<rparr>
     \<and> map_option wr (bw c1) = map_option wr (bw c)
     \<and> (wired c \<longrightarrow>
          wired (c1\<lparr>waits := Some Closed\<rparr>)
          \<and> (\<forall>p W'. case Conn_Write (c1\<lparr>waits := Some Closed\<rparr>) p of
                (res, c') \<Rightarrow> res = (length p, None)
                  \<and> (case Conn_Flush c' W' of
                       (r, c'', W'') \<Rightarrow> Conn c'' = Conn c
                         \<and> (\<forall>t. wire (conns W'' t) = wire (conns (snd (netconn_Write (Conn c) p W')) t))))))
   \<and> (Upgrade upgrader c W = (Some r, c', W') \<longrightarrow>
      Conn c' = Conn c \<and> map_option wr (bw c') = map_option wr (bw c))"
proof (rule conjI)
  show "Conn_Flush c W = (None, c1, W1) \<and> upgrader (Conn c) W1 = (Inl e, W2) \<longrightarrow>
     Upgrade upgrader c W = (Some e, c1\<lparr>waits := Some Closed\<rparr>, W2)
     \<and> Conn (c1\<lparr>waits := Some Closed\<rparr>) = Conn c
     \<and> c1\<lparr>waits := Some Closed\<rparr> = c\<lparr>bw := bw c1, waits := Some Closed\<rparr>
     \<and> map_option wr (bw c1) = map_option wr (bw c)
     \<and> (wired c \<longrightarrow>
          wired (c1\<lparr>waits := Some Closed\<rparr>)
          \<and> (\<forall>p W'. case Conn_Write (c1\<lparr>waits := Some Closed\<rparr>) p of
                (res, c') \<Rightarrow> res = (length p, None)
                  \<and> (case Conn_Flush c' W' of
                       (r, c'', W'') \<Rightarrow> Conn c'' = Conn c
                         \<and> (\<forall>t. wire (conns W'' t) = wire (conns (snd (netconn_Write (Conn c) p W')) t)))))"
  proof (intro impI, elim conjE)
    assume f: "Conn_Flush c W = (None, c1, W1)" and u: "upgrader (Conn c) W1 = (Inl e, W2)"
    let ?c = "c1\<lparr>waits := Some Closed\<rparr>"
    from Conn_Flush_frame[OF f] have fr: "c1 = c\<lparr>bw := bw c1\<rparr>" and wr: "map_option wr (bw c1) = map_option wr (bw c)"
      by simp_all
    from fr have "Conn c1 = Conn (c\<lparr>bw := bw c1\<rparr>)" by simp
    then have cc: "Conn c1 = Conn c" by simp
    from f u cc have 1: "Upgrade upgrader c W = (Some e, ?c, W2)"
      by (simp add: Upgrade_def)
    from fr have "c1\<lparr>waits := Some Closed\<rparr> = c\<lparr>bw := bw c1\<rparr>\<lparr>waits := Some Closed\<rparr>" by simp
    then have 3: "?c = c\<lparr>bw := bw c1, waits := Some Closed\<rparr>" by simp
    have 5: "wired ?c \<and> (\<forall>p W'. case Conn_Write ?c p of
                  (res, c') \<Rightarrow> res = (length p, None)
                    \<and> (case Conn_Flush c' W' of
                         (r, c'', W'') \<Rightarrow> Conn c'' = Conn c
                           \<and> (\<forall>t. wire (conns W'' t) = wire (conns (snd (netconn_Write (Conn c) p W')) t))))"
      if w: "wired c"
    proof
      from wired_frame[OF w fr wr] have w1: "wired c1" .
      then show w2: "wired ?c" by (simp add: wired_waits)
      from Conn_Flush_success[OF w f] obtain b1 where b1: "bw c1 = Some b1" "wbuf b1 = []" "werr b1 = None"
        by blast
      then have b2: "bw ?c = Some b1" by simp
      show "\<forall>p W'. case Conn_Write ?c p of
                  (res, c') \<Rightarrow> res = (length p, None)
                    \<and> (case Conn_Flush c' W' of
                         (r, c'', W'') \<Rightarrow> Conn c'' = Conn c
                           \<and> (\<forall>t. wire (conns W'' t) = wire (conns (snd (netconn_Write (Conn c) p W')) t)))"
      proof (intro allI)
        fix p W'
        let ?b = "b1\<lparr>wbuf := wbuf b1 @ p\<rparr>"
        let ?c' = "?c\<lparr>bw := Some ?b\<rparr>"
        have cw: "Conn_Write ?c p = ((length p, None), ?c')"
          by (rule Conn_Write_wired[OF w2 b2 b1(3)])
        have w3: "wired ?c'" by (rule wired_bw_update[OF w2 b2]) simp
        obtain r c'' W'' where cf: "Conn_Flush ?c' W' = (r, c'', W'')"
          by (cases "Conn_Flush ?c' W'")
        have bb: "bw ?c' = Some ?b" "werr ?b = None" using b1 by simp_all
        from Conn_Flush_delivers[OF w3 bb cf] b1(2) cc
        have d: "\<forall>t. wire (conns W'' t) = wire (conns (snd (netconn_Write (Conn c) p W')) t)" by simp
        from Conn_Flush_frame[OF cf] have "c'' = ?c'\<lparr>bw := bw c''\<rparr>" by simp
        then have "Conn c'' = Conn (?c'\<lparr>bw := bw c''\<rparr>)" by simp
        with cc have "Conn c'' = Conn c" by simp
        with cw cf d show "case Conn_Write ?c p of
                  (res, c') \<Rightarrow> res = (length p, None)
                    \<and> (case Conn_Flush c' W' of
                         (r, c'', W'') \<Rightarrow> Conn c'' = Conn c
                           \<and> (\<forall>t. wire (conns W'' t) = wire (conns (snd (netconn_Write (Conn c) p W')) t)))"
          by simp
      qed
    qed
    from 1 cc 3 wr 5 show "Upgrade upgrader c W = (Some e, ?c, W2)
       \<and> Conn ?c = Conn c
       \<and> ?c = c\<lparr>bw := bw c1, waits := Some Closed\<rparr>
       \<and> map_option wr (bw c1) = map_option wr (bw c)
       \<and> (wired c \<longrightarrow>
            wired ?c
            \<and> (\<forall>p W'. case Conn_Write ?c p of
                  (res, c') \<Rightarrow> res = (length p, None)
                    \<and> (case Conn_Flush c' W' of
                         (r, c'', W'') \<Rightarrow> Conn c'' = Conn c
                           \<and> (\<forall>t. wire (conns W'' t) = wire (conns (snd (netconn_Write (Conn c) p W')) t)))))"
      by simp
  qed
  show "(Upgrade upgrader c W = (Some r, c', W') \<longrightarrow>
      Conn c' = Conn c \<and> map_option wr (bw c') = map_option wr (bw c))"
    using Upgrade_error_keeps_stream[of upgrader c W r c' W'] by blast
qed

lemma NewConn_wired: "wired (fst (NewConn conn W))"
  unfolding NewConn_def by (rule init_wired) simp

lemma NewConn_0:
  "NewConn 0 world0 = (\<lparr>Conn = 0, Reader_reader = RBr, Writer_Writer = WStruct [FBw, FConn 0],
      br = Some \<lparr>rbuf = [], rd = FromConn 0\<rparr>,
      bw = Some \<lparr>wbuf = [], werr = None, wr = Plain (ToConn 0)\<rparr>, waits = None, debug = None\<rparr>, world0)"
  by (simp add: NewConn_def init_def NewReader_def NewWriter_def newMultiFlusher_def world0_def
      plain_conn_def)

lemma NewConn_conn0: "NewConn 0 world0 = (conn0, world0)"
  by (simp add: NewConn_0 conn0_def)

lemma conn0_Flush:
  "Conn_Flush conn0 W = (flush_result (conns W 0), conn0, snd (netconn_Flush 0 W))"
  by (cases "flush_result (conns W 0)")
     (simp_all add: Conn_Flush_def Writer_Flush_def flusher_Flush_def bufio_Flush_def
        netconn_Flush_def conn0_def)

lemma world0_conn0: "flush_result (conns world0 0) = None" "has_Flush (conns world0 0)"
  "\<not> has_Flush (conns world0 1)" "room (wire (conns world0 0)) = None"
  "accepted (wire (conns world0 0)) = []"
  by (simp_all add: world0_def plain_conn_def)

theorem Upgrade_upgrader_error_witness:
  "(case NewConn 0 world0 of
      (c, W) \<Rightarrow>
        (case Upgrade (\<lambda>sid W. (Inl (Error ''handshake''), W)) c W of
           (e, c', W') \<Rightarrow>
             e = Some (Error ''handshake'') \<and> Conn c' = 0 \<and> wired c' \<and> waits c' = Some Closed
             \<and> (case Conn_Write c' ''hi'' of
                  (res, c'') \<Rightarrow> res = (2, None)
                    \<and> (case Conn_Flush c'' W' of
                         (r, c3, W3) \<Rightarrow> Conn c3 = 0 \<and> accepted (wire (conns W3 0)) = ''hi''))))"
proof -
  let ?up = "\<lambda>(sid :: nat) (W :: world). (Inl (Error ''handshake'') :: error + nat, W)"
  let ?W1 = "snd (netconn_Flush 0 world0)"
  let ?c = "conn0\<lparr>waits := Some Closed\<rparr>"
  have f: "Conn_Flush conn0 world0 = (None, conn0, ?W1)"
    by (simp add: conn0_Flush world0_conn0)
  have c: "Conn conn0 = 0" by (simp add: conn0_def)
  have w: "wired conn0" using NewConn_wired[of 0 world0] by (simp add: NewConn_conn0)
  have u: "?up (Conn conn0) ?W1 = (Inl (Error ''handshake''), ?W1)" by simp
  note t = Upgrade_upgrader_error[where c = conn0 and W = world0 and ?c1.0 = conn0 and ?W1.0 = ?W1
      and upgrader = ?up and e = "Error ''handshake''" and ?W2.0 = ?W1, THEN conjunct1,
      rule_format, OF conjI, OF f u]
  from t have 1: "Upgrade ?up conn0 world0 = (Some (Error ''handshake''), ?c, ?W1)" by simp
  note tw = t[THEN conjunct2, THEN conjunct2, THEN conjunct2, THEN conjunct2, THEN mp, OF w]
  from tw have 2: "wired ?c" by (rule conjunct1)
  have 3: "case Conn_Write ?c ''hi'' of
      (res, c') \<Rightarrow> res = (length ''hi'', None)
        \<and> (case Conn_Flush c' ?W1 of
             (r, c'', W'') \<Rightarrow> Conn c'' = Conn conn0
               \<and> (\<forall>t. wire (conns W'' t) = wire (conns (snd (netconn_Write (Conn conn0) ''hi'' ?W1)) t)))"
    by (rule tw[THEN conjunct2, THEN spec, THEN spec])
  have 4: "accepted (wire (conns (snd (netconn_Write 0 ''hi'' ?W1)) 0)) = ''hi''"
    by (simp add: netconn_Write_def netconn_Flush_def endpoint_Write_def world0_conn0)
  from 3 4 c have 5: "case Conn_Write ?c ''hi'' of
      (res, c'') \<Rightarrow> res = (2, None)
        \<and> (case Conn_Flush c'' ?W1 of
             (r, c3, W3) \<Rightarrow> Conn c3 = 0 \<and> accepted (wire (conns W3 0)) = ''hi'')"
    by (auto split: prod.splits)
  from 1 2 5 c show ?thesis by (simp add: NewConn_conn0)
qed

text \<open>
  An upgrade that succeeds binds the buffered reader and writer to the new stream.
  \<open>Writer.Writer\<close> becomes the struct with the flush of the new stream when that
  stream has a \<open>Flush\<close> method, and stays what it was when it has none.
\<close>

lemma Upgrade_success:
  assumes f: "Conn_Flush c W = (None, c1, W1)" and u: "upgrader (Conn c) W1 = (Inr n, W2)"
  shows "\<exists>c' W'. Upgrade upgrader c W = (None, c', W') \<and> Conn c' = n \<and> waits c' = Some Closed
     \<and> conns W' = conns W2
     \<and> map_option wr (bw c') = Some (tapped_writer n (fst (tap_sides (c\<lparr>Conn := n\<rparr>) W2)))
     \<and> map_option rd (br c') = Some (tapped_reader n (snd (tap_sides (c\<lparr>Conn := n\<rparr>) W2)))
     \<and> Writer_Writer c' =
         (if has_Flush (conns W2 n) then WStruct [FBw, FConn n]
          else if bw c1 = None then WBw else Writer_Writer c)
     \<and> (wired c \<longrightarrow> wired c')"
proof -
  from Conn_Flush_frame[OF f] have fr: "c1 = c\<lparr>bw := bw c1\<rparr>" and wr: "map_option wr (bw c1) = map_option wr (bw c)"
    by simp_all
  from fr have "Conn c1 = Conn (c\<lparr>bw := bw c1\<rparr>)" "Writer_Writer c1 = Writer_Writer (c\<lparr>bw := bw c1\<rparr>)"
    "debug c1 = debug (c\<lparr>bw := bw c1\<rparr>)"
    by simp_all
  then have cc: "Conn c1 = Conn c" "Writer_Writer c1 = Writer_Writer c" "debug c1 = debug c" by simp_all
  let ?c2 = "c1\<lparr>waits := Some Open, Conn := n\<rparr>"
  let ?c' = "(fst (init ?c2 W2))\<lparr>waits := Some Closed\<rparr>"
  let ?W' = "snd (init ?c2 W2)"
  from f u cc have up: "Upgrade upgrader c W = (None, ?c', ?W')"
    by (simp add: Upgrade_def split: prod.splits)
  have ts: "tap_sides ?c2 W2 = tap_sides (c\<lparr>Conn := n\<rparr>) W2"
    by (simp add: tap_sides_def cc cong: option.case_cong)
  have w: "wired ?c'" if "wired c"
  proof -
    from that have "made_by_init (Writer_Writer ?c2)" by (simp add: wired_def cc)
    then have "wired (fst (init ?c2 W2))" by (intro init_wired) simp
    then show ?thesis by (simp add: wired_waits)
  qed
  from up w ts show ?thesis
    using init_fields[of ?c2 W2] by (simp add: cc)
qed

lemma Flush_empty_struct:
  assumes "bw c = Some b" "werr b = None" "wbuf b = []" "Writer_Writer c = WStruct [FBw, FConn x]"
  shows "Conn_Flush c W = (flush_result (conns W x), c, snd (netconn_Flush x W))"
proof -
  from assms(1) have "c\<lparr>bw := Some b\<rparr> = c" by simp
  with assms show ?thesis
    by (cases "flush_result (conns W x)")
       (simp_all add: Conn_Flush_def Writer_Flush_def flusher_Flush_def bufio_Flush_def
          netconn_Flush_def)
qed

lemma Upgrade_conn0:
  "Upgrade (\<lambda>sid W. (Inr 1, W)) conn0 world0
     = (None, \<lparr>Conn = 1, Reader_reader = RBr, Writer_Writer = WStruct [FBw, FConn 0],
          br = Some \<lparr>rbuf = [], rd = FromConn 1\<rparr>,
          bw = Some \<lparr>wbuf = [], werr = None, wr = Plain (ToConn 1)\<rparr>, waits = Some Closed,
          debug = None\<rparr>, snd (netconn_Flush 0 world0))"
proof -
  let ?W1 = "snd (netconn_Flush 0 world0)"
  have h: "\<not> has_Flush (conns ?W1 (Suc 0))"
    by (simp add: netconn_Flush_def world0_def plain_conn_def)
  have f: "Conn_Flush conn0 world0 = (None, conn0, ?W1)"
    by (simp add: conn0_Flush world0_conn0)
  have c: "Conn conn0 = 0" by (simp add: conn0_def)
  have i: "init (conn0\<lparr>waits := Some Open, Conn := Suc 0\<rparr>) ?W1
     = (\<lparr>Conn = Suc 0, Reader_reader = RBr, Writer_Writer = WStruct [FBw, FConn 0],
          br = Some \<lparr>rbuf = [], rd = FromConn (Suc 0)\<rparr>,
          bw = Some \<lparr>wbuf = [], werr = None, wr = Plain (ToConn (Suc 0))\<rparr>, waits = Some Open,
          debug = None\<rparr>, ?W1)"
    using h by (simp add: init_def conn0_def Reader_Reset_def Writer_Reset_def Let_def)
  show ?thesis
    using i by (simp add: Upgrade_def f c)
qed

text \<open>
  Claim C1, on the code: a transport made on stream 0, which has a \<open>Flush\<close> method, is
  upgraded to stream 1, which has none. The upgrade succeeds and the buffered reader
  and writer work on stream 1, but \<open>Writer.Writer\<close> still holds the flushers of
  stream 0: \<open>init\<close> sets it only when it makes the writer or when the new stream
  has a \<open>Flush\<close> method. The next \<open>Flush\<close> of the transport calls the \<open>Flush\<close> of
  stream 0.
\<close>

theorem Upgrade_keeps_replaced_flusher:
  "(case NewConn 0 world0 of
      (c, W) \<Rightarrow>
        (case Upgrade (\<lambda>sid W. (Inr 1, W)) c W of
           (e, c1, W1) \<Rightarrow>
             e = None \<and> Conn c1 = 1 \<and> bound c1 \<and> \<not> has_Flush (conns W1 1)
             \<and> flush_strategy c1 = [FBw, FConn 0]
             \<and> (case Conn_Flush c1 W1 of
                  (e', c2, W2) \<Rightarrow>
                    e' = None \<and> flush_calls (conns W2 0) = Suc (flush_calls (conns W1 0))
                    \<and> flush_calls (conns W2 1) = 0)))"
proof -
  let ?c1 = "\<lparr>Conn = 1, Reader_reader = RBr, Writer_Writer = WStruct [FBw, FConn 0],
          br = Some \<lparr>rbuf = [], rd = FromConn 1\<rparr>,
          bw = Some \<lparr>wbuf = [], werr = None, wr = Plain (ToConn 1)\<rparr>, waits = Some Closed,
          debug = None\<rparr>"
  let ?W1 = "snd (netconn_Flush 0 world0)"
  have b: "bound ?c1"
    by (simp add: bound_def iowriter_conns_def target_conns_def ioreader_conn_def)
  have h: "\<not> has_Flush (conns ?W1 1)"
    by (simp add: netconn_Flush_def world0_def plain_conn_def)
  have s: "flush_strategy ?c1 = [FBw, FConn 0]"
    by (simp add: flush_strategy_def)
  have r: "flush_result (conns ?W1 0) = None"
    by (simp add: netconn_Flush_def world0_def plain_conn_def)
  have "Conn_Flush ?c1 ?W1 = (flush_result (conns ?W1 0), ?c1, snd (netconn_Flush 0 ?W1))"
    by (rule Flush_empty_struct[where b = "\<lparr>wbuf = [], werr = None, wr = Plain (ToConn 1)\<rparr>"]) simp_all
  with r have f: "Conn_Flush ?c1 ?W1 = (None, ?c1, snd (netconn_Flush 0 ?W1))"
    by simp
  have n: "flush_calls (conns (snd (netconn_Flush 0 ?W1)) 0) = Suc (flush_calls (conns ?W1 0))"
    "flush_calls (conns (snd (netconn_Flush 0 ?W1)) 1) = 0"
    by (simp_all add: netconn_Flush_def world0_def plain_conn_def)
  show ?thesis
    by (simp only: NewConn_conn0 Upgrade_conn0 prod.case f) (insert b h s n, simp)
qed

subsection \<open>The diagnostic tap\<close>

text \<open>
  A sink that takes the copy answers as the contract of \<open>io.Writer\<close> asks, so the
  wrappers return what the stream returns.
\<close>

lemma endpoint_Write_ok:
  "endpoint_Write ep p = ((n, None), ep') \<Longrightarrow> n = length p"
  by (auto simp: endpoint_Write_def split: option.splits if_splits)

lemma endpoint_Write_accepts:
  "accepts ep (length p) \<Longrightarrow> fst (endpoint_Write ep p) = (length p, None)
     \<and> accepted (snd (endpoint_Write ep p)) = accepted ep @ p"
  by (auto simp: endpoint_Write_def accepts_def split: option.splits)

lemma netconn_Write_ok: "netconn_Write sid p W = ((n, None), W') \<Longrightarrow> n = length p"
  by (auto simp: netconn_Write_def split: prod.splits dest: endpoint_Write_ok)

lemma netconn_Write_sinks: "sinks (snd (netconn_Write sid p W)) = sinks W"
  by (simp add: netconn_Write_def split: prod.splits)

lemma netconn_Read_sinks: "sinks (snd (netconn_Read sid k W)) = sinks W"
  by (simp add: netconn_Read_def Let_def)

lemma netconn_Read_length: "length (fst (fst (netconn_Read sid k W))) \<le> k"
  by (simp add: netconn_Read_def Let_def)

lemma sink_Write_accepts:
  "accepts (sinks W d) (length p) \<Longrightarrow> fst (sink_Write d p W) = (length p, None)
     \<and> accepted (sinks (snd (sink_Write d p W)) d) = accepted (sinks W d) @ p"
  using endpoint_Write_accepts[of "sinks W d" p]
  by (cases "endpoint_Write (sinks W d) p") (simp add: sink_Write_def)

lemma accepts_less: "accepts ep k \<Longrightarrow> n \<le> k \<Longrightarrow> accepts ep n"
  by (auto simp: accepts_def split: option.splits)

lemma tapped_write:
  assumes a: "accepts (sinks W d) (length p)"
  shows "io_Write (tapped_writer sid (Some d)) p W =
     (case io_Write (tapped_writer sid None) p W of
        ((n, e), W1) \<Rightarrow> ((n, e), if e = None then snd (sink_Write d p W1) else W1))"
proof -
  obtain n e W1 where nw: "netconn_Write sid p W = ((n, e), W1)"
    by (cases "netconn_Write sid p W") auto
  show ?thesis
  proof (cases e)
    case (Some x)
    with nw show ?thesis
      by (simp add: io_Write_def tapped_writer_def target_Write_def)
  next
    case None
    with nw have n: "n = length p" by (simp add: netconn_Write_ok)
    from nw netconn_Write_sinks[of sid p W] have "sinks W1 = sinks W" by simp
    with a have "accepts (sinks W1 d) (length p)" by simp
    from sink_Write_accepts[OF this] have "fst (sink_Write d p W1) = (length p, None)" by simp
    then obtain W2 where sw: "sink_Write d p W1 = ((length p, None), W2)"
      by (cases "sink_Write d p W1") auto
    with nw None n show ?thesis
      by (simp add: io_Write_def tapped_writer_def target_Write_def)
  qed
qed

lemma tapped_read:
  assumes a: "accepts (sinks W d) k"
  shows "io_Read (tapped_reader sid (Some d)) k W =
     (case io_Read (tapped_reader sid None) k W of
        ((bs, e), W1) \<Rightarrow> ((bs, e), if bs \<noteq> [] then snd (sink_Write d bs W1) else W1))"
proof -
  obtain bs e W1 where nr: "netconn_Read sid k W = ((bs, e), W1)"
    by (cases "netconn_Read sid k W") auto
  show ?thesis
  proof (cases "bs = []")
    case True
    with nr show ?thesis
      by (simp add: io_Read_def tapped_reader_def teeReader_Read_def)
  next
    case False
    from nr netconn_Read_length[of sid k W] have "length bs \<le> k" by simp
    moreover from nr netconn_Read_sinks[of sid k W] have "sinks W1 = sinks W" by simp
    ultimately have "accepts (sinks W1 d) (length bs)" using a by (simp add: accepts_less)
    from sink_Write_accepts[OF this] have "fst (sink_Write d bs W1) = (length bs, None)" by simp
    then obtain W2 where sw: "sink_Write d bs W1 = ((length bs, None), W2)"
      by (cases "sink_Write d bs W1") auto
    with nr False show ?thesis
      by (simp add: io_Read_def tapped_reader_def teeReader_Read_def)
  qed
qed

lemma tap_sides_simps:
  "tap_sides (c\<lparr>debug := None\<rparr>) W = (None, None)"
  "tap_sides (c\<lparr>debug := Some (NewDebugWriter l r)\<rparr>) W = (l, r)"
  "tap_sides (c\<lparr>debug := Some (OtherWriter d)\<rparr>) W = (Some d, Some d)"
  "tap_sides (c\<lparr>debug := Some (NewDebugWithFields fl fr W0)\<rparr>) W =
     (case fl of None \<Rightarrow> None | Some x \<Rightarrow> Writer_of (fieldwriters W x),
      case fr of None \<Rightarrow> None | Some x \<Rightarrow> Writer_of (fieldwriters W x))"
  by (auto simp: tap_sides_def debug_sides_def NewDebugWriter_def NewDebugWithFields_def Let_def
      localWriter_def remoteWriter_def withField_def SetField_def split: option.splits)

lemma bufio_Flush_tapped:
  assumes a: "accepts (sinks W d) (length (wbuf b))" and t: "wr b = tapped_writer sid (Some d)"
  shows "fst (bufio_Flush b W) = fst (bufio_Flush (b\<lparr>wr := tapped_writer sid None\<rparr>) W)
     \<and> conns (snd (snd (bufio_Flush b W))) = conns (snd (snd (bufio_Flush (b\<lparr>wr := tapped_writer sid None\<rparr>) W)))
     \<and> fst (snd (bufio_Flush b W)) = (fst (snd (bufio_Flush (b\<lparr>wr := tapped_writer sid None\<rparr>) W)))\<lparr>wr := wr b\<rparr>"
proof (cases "werr b = None \<and> wbuf b \<noteq> []")
  case False
  then show ?thesis by (auto simp: bufio_Flush_def t split: option.splits)
next
  case True
  obtain n e W1 where w: "io_Write (tapped_writer sid None) (wbuf b) W = ((n, e), W1)"
    by (cases "io_Write (tapped_writer sid None) (wbuf b) W") auto
  with tapped_write[OF a, of sid]
  have "io_Write (wr b) (wbuf b) W = ((n, e), if e = None then snd (sink_Write d (wbuf b) W1) else W1)"
    by (simp add: t)
  with w True show ?thesis
    by (cases e) (simp_all add: bufio_Flush_def sink_Write_conns)
qed

lemma netconn_Flush_conns:
  "conns W1 = conns W2 \<Longrightarrow> fst (netconn_Flush x W1) = fst (netconn_Flush x W2)
     \<and> conns (snd (netconn_Flush x W1)) = conns (snd (netconn_Flush x W2))"
  by (simp add: netconn_Flush_def)

lemma Conn_Flush_tapped:
  assumes m: "made_by_init (Writer_Writer c)" and b: "bw c = Some b"
    and t: "wr b = tapped_writer sid (Some d)" and a: "accepts (sinks W d) (length (wbuf b))"
  shows "fst (Conn_Flush c W) = fst (Conn_Flush (c\<lparr>bw := Some (b\<lparr>wr := tapped_writer sid None\<rparr>)\<rparr>) W)
     \<and> conns (snd (snd (Conn_Flush c W)))
         = conns (snd (snd (Conn_Flush (c\<lparr>bw := Some (b\<lparr>wr := tapped_writer sid None\<rparr>)\<rparr>) W)))"
proof -
  let ?b0 = "b\<lparr>wr := tapped_writer sid None\<rparr>"
  obtain e b1 W1 where f1: "bufio_Flush b W = (e, b1, W1)" by (cases "bufio_Flush b W")
  obtain e' b2 W2 where f2: "bufio_Flush ?b0 W = (e', b2, W2)" by (cases "bufio_Flush ?b0 W")
  from bufio_Flush_tapped[OF a t] f1 f2 have eq: "e' = e" "conns W1 = conns W2" by simp_all
  from made_by_init_cases[OF m] show ?thesis
  proof
    assume "Writer_Writer c = WBw"
    with b f1 f2 eq show ?thesis
      by (simp add: Conn_Flush_Writer_Flush Writer_Flush_def flusher_Flush_def)
  next
    assume "\<exists>x. Writer_Writer c = WStruct [FBw, FConn x]"
    then obtain x where s: "Writer_Writer c = WStruct [FBw, FConn x]" by blast
    show ?thesis
    proof (cases e)
      case (Some y)
      with s b f1 f2 eq show ?thesis
        by (simp add: Conn_Flush_Writer_Flush Writer_Flush_def flusher_Flush_def)
    next
      case None
      obtain r1 V1 where n1: "netconn_Flush x W1 = (r1, V1)" by (cases "netconn_Flush x W1")
      obtain r2 V2 where n2: "netconn_Flush x W2 = (r2, V2)" by (cases "netconn_Flush x W2")
      from netconn_Flush_conns[OF eq(2), of x] n1 n2 have "r2 = r1" "conns V1 = conns V2"
        by simp_all
      with None s b f1 f2 eq n1 n2 show ?thesis
        by (cases r1) (simp_all add: Conn_Flush_Writer_Flush Writer_Flush_def flusher_Flush_def)
    qed
  qed
qed

lemma SetField_sinks: "sinks (SetField fw k v W) = sinks W"
  by (simp add: SetField_def)

lemma withField_sinks: "sinks (withField l r k v W) = sinks W"
  by (simp add: withField_def SetField_sinks Let_def split: option.splits)

lemma debug_sides_sinks: "debug_sides d sid W = (sides, d', W') \<Longrightarrow> sinks W' = sinks W"
  by (cases d) (auto simp: debug_sides_def withField_sinks Let_def split: option.splits prod.splits)

lemma init_buffers:
  "bw (fst (init c W)) = Some \<lparr>wbuf = [], werr = None, wr = tapped_writer (Conn c) (fst (tap_sides c W))\<rparr>"
  "br (fst (init c W)) = Some \<lparr>rbuf = [], rd = tapped_reader (Conn c) (snd (tap_sides c W))\<rparr>"
  "sinks (snd (init c W)) = sinks W"
  by (cases "debug c"; cases "br c"; cases "bw c";
      auto simp: init_def tap_sides_def tapped_writer_def tapped_reader_def Let_def NewWriter_def
        Writer_Reset_def NewReader_def Reader_Reset_def
        split: prod.splits option.splits dest: debug_sides_sinks)+

lemma tapped_write_stream_error:
  "snd (fst (io_Write (tapped_writer sid None) p W)) \<noteq> None
   \<Longrightarrow> io_Write (tapped_writer sid (Some d)) p W = io_Write (tapped_writer sid None) p W"
proof -
  assume a: "snd (fst (io_Write (tapped_writer sid None) p W)) \<noteq> None"
  obtain n e W1 where nw: "netconn_Write sid p W = ((n, e), W1)"
    by (cases "netconn_Write sid p W") auto
  with a obtain x where "e = Some x"
    by (auto simp: io_Write_def tapped_writer_def target_Write_def)
  with nw show ?thesis
    by (simp add: io_Write_def tapped_writer_def target_Write_def)
qed

lemma sink_Write_refuses:
  "\<not> accepts (sinks W d) (length p)
   \<Longrightarrow> snd (fst (sink_Write d p W)) = Some (failure (sinks W d))
     \<and> fst (fst (sink_Write d p W)) < length p
     \<and> room (sinks W d) = Some (fst (fst (sink_Write d p W)))"
  by (auto simp: sink_Write_def endpoint_Write_def accepts_def split: option.splits)

lemma sink_Write_fst: "sinks W1 = sinks W \<Longrightarrow> fst (sink_Write d p W1) = fst (sink_Write d p W)"
  by (simp add: sink_Write_def split: prod.splits)

lemma tapped_write_sink_error:
  assumes a: "\<not> accepts (sinks W d) (length p)"
    and s: "snd (fst (io_Write (tapped_writer sid None) p W)) = None"
  shows "fst (io_Write (tapped_writer sid (Some d)) p W) = fst (sink_Write d p W)
     \<and> snd (fst (sink_Write d p W)) = Some (failure (sinks W d))
     \<and> conns (snd (io_Write (tapped_writer sid (Some d)) p W))
         = conns (snd (io_Write (tapped_writer sid None) p W))"
proof -
  obtain n e W1 where nw: "netconn_Write sid p W = ((n, e), W1)"
    by (cases "netconn_Write sid p W") auto
  with s have e: "e = None" by (simp add: io_Write_def tapped_writer_def target_Write_def)
  with nw have n: "n = length p" by (simp add: netconn_Write_ok)
  from nw netconn_Write_sinks[of sid p W] have ss: "sinks W1 = sinks W" by simp
  from sink_Write_refuses[OF a] obtain m where
    f: "fst (sink_Write d p W) = (m, Some (failure (sinks W d)))"
    by (cases "fst (sink_Write d p W)") auto
  with sink_Write_fst[OF ss, of d p] obtain W2 where
    sw: "sink_Write d p W1 = ((m, Some (failure (sinks W d))), W2)"
    by (cases "sink_Write d p W1") auto
  from sw sink_Write_conns[of d p W1] have c: "conns W2 = conns W1" by simp
  from nw e n sw have "io_Write (tapped_writer sid (Some d)) p W = ((m, Some (failure (sinks W d))), W2)"
    by (simp add: io_Write_def tapped_writer_def target_Write_def)
  moreover from nw have "snd (io_Write (tapped_writer sid None) p W) = W1"
    by (simp add: io_Write_def tapped_writer_def target_Write_def)
  ultimately show ?thesis using f c by simp
qed

lemma tapped_read_copy:
  assumes a: "accepts (sinks W d) (length (fst (fst (io_Read (tapped_reader sid None) k W))))"
  shows "io_Read (tapped_reader sid (Some d)) k W =
     (case io_Read (tapped_reader sid None) k W of
        ((bs, e), W1) \<Rightarrow> ((bs, e), if bs \<noteq> [] then snd (sink_Write d bs W1) else W1))"
proof -
  obtain bs e W1 where nr: "netconn_Read sid k W = ((bs, e), W1)"
    by (cases "netconn_Read sid k W") auto
  show ?thesis
  proof (cases "bs = []")
    case True
    with nr show ?thesis
      by (simp add: io_Read_def tapped_reader_def teeReader_Read_def)
  next
    case False
    from nr a have "accepts (sinks W d) (length bs)"
      by (simp add: io_Read_def tapped_reader_def)
    moreover from nr netconn_Read_sinks[of sid k W] have "sinks W1 = sinks W" by simp
    ultimately have "accepts (sinks W1 d) (length bs)" by simp
    from sink_Write_accepts[OF this] have "fst (sink_Write d bs W1) = (length bs, None)" by simp
    then obtain W2 where sw: "sink_Write d bs W1 = ((length bs, None), W2)"
      by (cases "sink_Write d bs W1") auto
    with nr False show ?thesis
      by (simp add: io_Read_def tapped_reader_def teeReader_Read_def)
  qed
qed

lemma tapped_read_sink_error:
  assumes n: "fst (fst (io_Read (tapped_reader sid None) k W)) \<noteq> []"
    and a: "\<not> accepts (sinks W d) (length (fst (fst (io_Read (tapped_reader sid None) k W))))"
  shows "fst (io_Read (tapped_reader sid (Some d)) k W)
       = (take (fst (fst (sink_Write d (fst (fst (io_Read (tapped_reader sid None) k W))) W)))
            (fst (fst (io_Read (tapped_reader sid None) k W))),
          Some (failure (sinks W d)))
     \<and> conns (snd (io_Read (tapped_reader sid (Some d)) k W))
         = conns (snd (io_Read (tapped_reader sid None) k W))"
proof -
  obtain bs e W1 where nr: "netconn_Read sid k W = ((bs, e), W1)"
    by (cases "netconn_Read sid k W") auto
  then have p: "io_Read (tapped_reader sid None) k W = ((bs, e), W1)"
    by (simp add: io_Read_def tapped_reader_def)
  with n a have b: "bs \<noteq> []" and r: "\<not> accepts (sinks W d) (length bs)" by simp_all
  from nr netconn_Read_sinks[of sid k W] have ss: "sinks W1 = sinks W" by simp
  from sink_Write_refuses[OF r] obtain m where
    f: "fst (sink_Write d bs W) = (m, Some (failure (sinks W d)))"
    by (cases "fst (sink_Write d bs W)") auto
  with sink_Write_fst[OF ss, of d bs] obtain W2 where
    sw: "sink_Write d bs W1 = ((m, Some (failure (sinks W d))), W2)"
    by (cases "sink_Write d bs W1") auto
  from sw sink_Write_conns[of d bs W1] have c: "conns W2 = conns W1" by simp
  from nr b sw have "io_Read (tapped_reader sid (Some d)) k W
      = ((take m bs, Some (failure (sinks W d))), W2)"
    by (simp add: io_Read_def tapped_reader_def teeReader_Read_def)
  with p f c show ?thesis by simp
qed

lemma flusher_Flush_bw_only:
  "bw c = bw c' \<Longrightarrow>
   flusher_Flush f (c, W) = (case flusher_Flush f (c', W) of (e, c1, W1) \<Rightarrow> (e, c\<lparr>bw := bw c1\<rparr>, W1))"
proof -
  assume a: "bw c = bw c'"
  then have "c\<lparr>bw := bw c'\<rparr> = c" by simp
  with a show ?thesis
    by (cases f) (auto simp: flusher_Flush_def split: option.splits prod.splits)
qed

lemma multiFlusher_Flush_bw_only:
  "bw c = bw c' \<Longrightarrow>
   multiFlusher_Flush flusher_Flush fs (c, W)
     = (case multiFlusher_Flush flusher_Flush fs (c', W) of (e, c1, W1) \<Rightarrow> (e, c\<lparr>bw := bw c1\<rparr>, W1))"
proof (induction fs arbitrary: c c' W)
  case Nil
  then have "c\<lparr>bw := bw c'\<rparr> = c" by simp
  then show ?case by simp
next
  case (Cons f fs)
  obtain r c1 W1 where fl: "flusher_Flush f (c', W) = (r, c1, W1)"
    by (cases "flusher_Flush f (c', W)")
  with flusher_Flush_bw_only[OF Cons.prems, of f W]
  have fl': "flusher_Flush f (c, W) = (r, c\<lparr>bw := bw c1\<rparr>, W1)" by simp
  show ?case
  proof (cases r)
    case (Some x)
    with fl fl' show ?thesis by simp
  next
    case None
    have "bw (c\<lparr>bw := bw c1\<rparr>) = bw c1" by simp
    from Cons.IH[OF this, of W1] None fl fl' show ?thesis
      by (simp split: prod.splits)
  qed
qed

lemma Conn_Flush_bw_only:
  assumes "bw c = bw c'" "Writer_Writer c = Writer_Writer c'"
  shows "Conn_Flush c W = (case Conn_Flush c' W of (e, c1, W1) \<Rightarrow> (e, c\<lparr>bw := bw c1\<rparr>, W1))"
proof (cases "Writer_Writer c'")
  case WNil
  from assms(1) have "c\<lparr>bw := bw c'\<rparr> = c" by simp
  with WNil assms show ?thesis by (simp add: Conn_Flush_Writer_Flush Writer_Flush_def)
next
  case WBw
  with assms flusher_Flush_bw_only[OF assms(1), of FBw W] show ?thesis
    by (simp add: Conn_Flush_Writer_Flush Writer_Flush_def)
next
  case (WStruct fs)
  with assms multiFlusher_Flush_bw_only[OF assms(1), of fs W] show ?thesis
    by (simp add: Conn_Flush_Writer_Flush Writer_Flush_def)
qed

lemma Conn_Write_made:
  assumes m: "made_by_init (Writer_Writer c)" and b: "bw c = Some b" and n: "werr b = None"
  shows "Conn_Write c p = ((length p, None), c\<lparr>bw := Some (b\<lparr>wbuf := wbuf b @ p\<rparr>)\<rparr>)"
proof -
  from m have "Writer_Writer c \<noteq> WNil" by auto
  with b n show ?thesis
    by (cases "Writer_Writer c") (simp_all add: Conn_Write_def bufio_Write_def)
qed

lemma Conn_Write_bw_only:
  assumes "bw c = bw c'" "Writer_Writer c = Writer_Writer c'"
  shows "Conn_Write c p = (case Conn_Write c' p of (res, c1) \<Rightarrow> (res, c\<lparr>bw := bw c1\<rparr>))"
proof -
  from assms(1) have "c\<lparr>bw := bw c'\<rparr> = c" by simp
  with assms show ?thesis
    by (cases "Writer_Writer c'"; cases "bw c'")
       (auto simp: Conn_Write_def split: prod.splits)
qed

lemma Write_then_Flush_bw_only:
  assumes "bw c = bw c'" "Writer_Writer c = Writer_Writer c'"
  shows "fst (Write_then_Flush c p W) = fst (Write_then_Flush c' p W)
     \<and> snd (snd (Write_then_Flush c p W)) = snd (snd (Write_then_Flush c' p W))"
proof -
  obtain res c1 where w: "Conn_Write c' p = (res, c1)" by (cases "Conn_Write c' p")
  with Conn_Write_bw_only[OF assms, of p] have w': "Conn_Write c p = (res, c\<lparr>bw := bw c1\<rparr>)"
    by simp
  have "Writer_Writer c1 = Writer_Writer c'"
    using w by (auto simp: Conn_Write_def split: writer_iface.splits option.splits prod.splits)
  with assms(2) have "bw (c\<lparr>bw := bw c1\<rparr>) = bw c1"
    "Writer_Writer (c\<lparr>bw := bw c1\<rparr>) = Writer_Writer c1" by simp_all
  from Conn_Flush_bw_only[OF this, of W] w w' show ?thesis
    by (simp add: Write_then_Flush_def split: prod.splits)
qed

lemma init_Writer_debug:
  "Writer_Writer (fst (init (c\<lparr>debug := x\<rparr>) W)) = Writer_Writer (fst (init (c\<lparr>debug := y\<rparr>) W))"
  by (simp add: init_fields(8))

lemma init_untapped_side:
  assumes "fst (tap_sides (c\<lparr>debug := Some g\<rparr>) W) = None"
  shows "fst (Write_then_Flush (fst (init (c\<lparr>debug := Some g\<rparr>) W)) p W')
           = fst (Write_then_Flush (fst (init (c\<lparr>debug := None\<rparr>) W)) p W')
     \<and> snd (snd (Write_then_Flush (fst (init (c\<lparr>debug := Some g\<rparr>) W)) p W'))
           = snd (snd (Write_then_Flush (fst (init (c\<lparr>debug := None\<rparr>) W)) p W'))"
proof (rule Write_then_Flush_bw_only)
  show "bw (fst (init (c\<lparr>debug := Some g\<rparr>) W)) = bw (fst (init (c\<lparr>debug := None\<rparr>) W))"
    using assms by (simp add: init_buffers(1) tap_sides_simps(1))
  show "Writer_Writer (fst (init (c\<lparr>debug := Some g\<rparr>) W))
          = Writer_Writer (fst (init (c\<lparr>debug := None\<rparr>) W))"
    by (rule init_Writer_debug)
qed

lemma init_tapped_side:
  assumes m: "bw c = None \<or> made_by_init (Writer_Writer c)"
    and t: "fst (tap_sides (c\<lparr>debug := Some g\<rparr>) W) = Some d"
    and a: "accepts (sinks W' d) (length p)"
  shows "fst (Write_then_Flush (fst (init (c\<lparr>debug := Some g\<rparr>) W)) p W')
           = fst (Write_then_Flush (fst (init (c\<lparr>debug := None\<rparr>) W)) p W')
     \<and> conns (snd (snd (Write_then_Flush (fst (init (c\<lparr>debug := Some g\<rparr>) W)) p W')))
           = conns (snd (snd (Write_then_Flush (fst (init (c\<lparr>debug := None\<rparr>) W)) p W')))"
proof -
  let ?ct = "fst (init (c\<lparr>debug := Some g\<rparr>) W)"
  let ?c0 = "fst (init (c\<lparr>debug := None\<rparr>) W)"
  let ?bt = "\<lparr>wbuf = [], werr = None, wr = tapped_writer (Conn c) (Some d)\<rparr>"
  let ?b0 = "\<lparr>wbuf = [], werr = None, wr = tapped_writer (Conn c) None\<rparr>"
  have bt: "bw ?ct = Some ?bt" using t by (simp add: init_buffers(1))
  have b0: "bw ?c0 = Some ?b0" by (simp add: init_buffers(1) tap_sides_simps(1))
  have mt: "made_by_init (Writer_Writer ?ct)" using m by (auto simp: init_fields(8))
  have ww: "Writer_Writer ?ct = Writer_Writer ?c0" by (rule init_Writer_debug)
  with mt have m0: "made_by_init (Writer_Writer ?c0)" by simp
  let ?bt1 = "?bt\<lparr>wbuf := wbuf ?bt @ p\<rparr>"
  let ?b01 = "?b0\<lparr>wbuf := wbuf ?b0 @ p\<rparr>"
  let ?ct1 = "?ct\<lparr>bw := Some ?bt1\<rparr>"
  let ?c01 = "?c0\<lparr>bw := Some ?b01\<rparr>"
  have wt: "Conn_Write ?ct p = ((length p, None), ?ct1)"
    by (rule Conn_Write_made[OF mt bt]) simp
  have w0: "Conn_Write ?c0 p = ((length p, None), ?c01)"
    by (rule Conn_Write_made[OF m0 b0]) simp
  have "made_by_init (Writer_Writer ?ct1)" "bw ?ct1 = Some ?bt1"
    "wr ?bt1 = tapped_writer (Conn c) (Some d)" "accepts (sinks W' d) (length (wbuf ?bt1))"
    using mt a by simp_all
  from Conn_Flush_tapped[OF this]
  have x: "fst (Conn_Flush ?ct1 W') = fst (Conn_Flush (?ct1\<lparr>bw := Some ?b01\<rparr>) W')"
    "conns (snd (snd (Conn_Flush ?ct1 W'))) = conns (snd (snd (Conn_Flush (?ct1\<lparr>bw := Some ?b01\<rparr>) W')))"
    by simp_all
  have "bw (?ct1\<lparr>bw := Some ?b01\<rparr>) = bw ?c01"
    "Writer_Writer (?ct1\<lparr>bw := Some ?b01\<rparr>) = Writer_Writer ?c01"
    using ww by simp_all
  from Conn_Flush_bw_only[OF this, of W']
  have y: "fst (Conn_Flush (?ct1\<lparr>bw := Some ?b01\<rparr>) W') = fst (Conn_Flush ?c01 W')"
    "snd (snd (Conn_Flush (?ct1\<lparr>bw := Some ?b01\<rparr>) W')) = snd (snd (Conn_Flush ?c01 W'))"
    by (simp_all split: prod.splits)
  from x y wt w0 show ?thesis by (simp add: Write_then_Flush_def)
qed

text \<open>
  Claim C8, amended. \<open>init\<close> resets both buffers whether a diagnostic writer is set
  or not, so what was pending in them is dropped either way, and leaves the streams
  and the sinks as they are. It binds the buffered writer to the stream alone when
  the local side has no sink and to \<open>io.MultiWriter\<close> of the stream and the sink when
  it has one, and the buffered reader likewise (\<open>io.TeeReader\<close>); the sides are
  those of the diagnostic writer (both the writer itself, the two of a \<open>debugWriter\<close>,
  or the writers of the two field writers).

  When the sink takes the copy in full, a write through the tap returns what the
  write to the stream alone returns and leaves the store as that write leaves it,
  but for the copy added to the sink when the stream took the bytes; a read through
  the tap returns what the read of the stream returns, the bytes read being copied
  to the sink, as long as the sink has room for the bytes read; and a flush of the
  transport returns the same error and leaves the streams the same with and without
  the tap. So a transport of \<open>NewConn\<close> and \<open>init\<close>, wired by \<open>init\<close> with a diagnostic
  writer, behaves on a write followed by a flush as the same transport wired by
  \<open>init\<close> with none: the same error and the same streams when the local sink takes
  the bytes, the same error and the same store when the local side has no sink.

  When the write to the stream fails, the sink is not written and the result is that
  of the stream alone. When the sink refuses the copy, the write through the tap
  returns the count and the error of the sink, the stream having taken the bytes,
  and the read through the tap returns the bytes the sink took and the error of the
  sink, the stream having supplied the bytes.
\<close>

theorem tap_preserves_bytes:
  "bw (fst (init c W)) = Some \<lparr>wbuf = [], werr = None, wr = tapped_writer (Conn c) (fst (tap_sides c W))\<rparr>
   \<and> br (fst (init c W)) = Some \<lparr>rbuf = [], rd = tapped_reader (Conn c) (snd (tap_sides c W))\<rparr>
   \<and> conns (snd (init c W)) = conns W
   \<and> sinks (snd (init c W)) = sinks W
   \<and> tap_sides (c\<lparr>debug := None\<rparr>) W = (None, None)
   \<and> tap_sides (c\<lparr>debug := Some (OtherWriter d)\<rparr>) W = (Some d, Some d)
   \<and> tap_sides (c\<lparr>debug := Some (NewDebugWriter l r)\<rparr>) W = (l, r)
   \<and> tap_sides (c\<lparr>debug := Some (NewDebugWithFields fl fr W0)\<rparr>) W =
       (case fl of None \<Rightarrow> None | Some x \<Rightarrow> Writer_of (fieldwriters W x),
        case fr of None \<Rightarrow> None | Some x \<Rightarrow> Writer_of (fieldwriters W x))
   \<and> tapped_writer sid None = Plain (ToConn sid)
   \<and> tapped_reader sid None = FromConn sid
   \<and> (accepts (sinks W d) (length p) \<longrightarrow>
        io_Write (tapped_writer sid (Some d)) p W =
          (case io_Write (tapped_writer sid None) p W of
             ((n, e), W1) \<Rightarrow> ((n, e), if e = None then snd (sink_Write d p W1) else W1))
        \<and> accepted (sinks (snd (sink_Write d p W)) d) = accepted (sinks W d) @ p)
   \<and> (accepts (sinks W d) (length (fst (fst (io_Read (tapped_reader sid None) k W)))) \<longrightarrow>
        io_Read (tapped_reader sid (Some d)) k W =
          (case io_Read (tapped_reader sid None) k W of
             ((bs, e), W1) \<Rightarrow> ((bs, e), if bs \<noteq> [] then snd (sink_Write d bs W1) else W1)))
   \<and> (made_by_init (Writer_Writer c) \<and> bw c = Some b \<and> wr b = tapped_writer sid (Some d)
        \<and> accepts (sinks W d) (length (wbuf b)) \<longrightarrow>
        fst (Conn_Flush c W) = fst (Conn_Flush (c\<lparr>bw := Some (b\<lparr>wr := tapped_writer sid None\<rparr>)\<rparr>) W)
        \<and> conns (snd (snd (Conn_Flush c W)))
            = conns (snd (snd (Conn_Flush (c\<lparr>bw := Some (b\<lparr>wr := tapped_writer sid None\<rparr>)\<rparr>) W))))
   \<and> ((bw c = None \<or> made_by_init (Writer_Writer c))
        \<and> fst (tap_sides (c\<lparr>debug := Some g\<rparr>) W) = Some d \<and> accepts (sinks W' d) (length p) \<longrightarrow>
        fst (Write_then_Flush (fst (init (c\<lparr>debug := Some g\<rparr>) W)) p W')
          = fst (Write_then_Flush (fst (init (c\<lparr>debug := None\<rparr>) W)) p W')
        \<and> conns (snd (snd (Write_then_Flush (fst (init (c\<lparr>debug := Some g\<rparr>) W)) p W')))
          = conns (snd (snd (Write_then_Flush (fst (init (c\<lparr>debug := None\<rparr>) W)) p W'))))
   \<and> (fst (tap_sides (c\<lparr>debug := Some g\<rparr>) W) = None \<longrightarrow>
        fst (Write_then_Flush (fst (init (c\<lparr>debug := Some g\<rparr>) W)) p W')
          = fst (Write_then_Flush (fst (init (c\<lparr>debug := None\<rparr>) W)) p W')
        \<and> snd (snd (Write_then_Flush (fst (init (c\<lparr>debug := Some g\<rparr>) W)) p W'))
          = snd (snd (Write_then_Flush (fst (init (c\<lparr>debug := None\<rparr>) W)) p W')))
   \<and> (snd (fst (io_Write (tapped_writer sid None) p W)) \<noteq> None \<longrightarrow>
        io_Write (tapped_writer sid (Some d)) p W = io_Write (tapped_writer sid None) p W)
   \<and> (\<not> accepts (sinks W d) (length p) \<and> snd (fst (io_Write (tapped_writer sid None) p W)) = None \<longrightarrow>
        fst (io_Write (tapped_writer sid (Some d)) p W) = fst (sink_Write d p W)
        \<and> snd (fst (sink_Write d p W)) = Some (failure (sinks W d))
        \<and> conns (snd (io_Write (tapped_writer sid (Some d)) p W))
            = conns (snd (io_Write (tapped_writer sid None) p W)))
   \<and> (fst (fst (io_Read (tapped_reader sid None) k W)) \<noteq> []
        \<and> \<not> accepts (sinks W d) (length (fst (fst (io_Read (tapped_reader sid None) k W)))) \<longrightarrow>
        fst (io_Read (tapped_reader sid (Some d)) k W)
          = (take (fst (fst (sink_Write d (fst (fst (io_Read (tapped_reader sid None) k W))) W)))
               (fst (fst (io_Read (tapped_reader sid None) k W))),
             Some (failure (sinks W d)))
        \<and> conns (snd (io_Read (tapped_reader sid (Some d)) k W))
            = conns (snd (io_Read (tapped_reader sid None) k W)))"
proof -
  have w: "accepts (sinks W d) (length p) \<longrightarrow>
        io_Write (tapped_writer sid (Some d)) p W =
          (case io_Write (tapped_writer sid None) p W of
             ((n, e), W1) \<Rightarrow> ((n, e), if e = None then snd (sink_Write d p W1) else W1))
        \<and> accepted (sinks (snd (sink_Write d p W)) d) = accepted (sinks W d) @ p"
    using tapped_write[where W=W and d=d and p=p and sid=sid] sink_Write_accepts[where W=W and d=d and p=p] by blast
  have r: "accepts (sinks W d) (length (fst (fst (io_Read (tapped_reader sid None) k W)))) \<longrightarrow>
        io_Read (tapped_reader sid (Some d)) k W =
          (case io_Read (tapped_reader sid None) k W of
             ((bs, e), W1) \<Rightarrow> ((bs, e), if bs \<noteq> [] then snd (sink_Write d bs W1) else W1))"
    using tapped_read_copy[where W=W and d=d and sid=sid and k=k] by blast
  have f: "made_by_init (Writer_Writer c) \<and> bw c = Some b \<and> wr b = tapped_writer sid (Some d)
        \<and> accepts (sinks W d) (length (wbuf b)) \<longrightarrow>
        fst (Conn_Flush c W) = fst (Conn_Flush (c\<lparr>bw := Some (b\<lparr>wr := tapped_writer sid None\<rparr>)\<rparr>) W)
        \<and> conns (snd (snd (Conn_Flush c W)))
            = conns (snd (snd (Conn_Flush (c\<lparr>bw := Some (b\<lparr>wr := tapped_writer sid None\<rparr>)\<rparr>) W)))"
    using Conn_Flush_tapped[where c=c and b=b and sid=sid and d=d and W=W] by blast
  have t: "(bw c = None \<or> made_by_init (Writer_Writer c))
        \<and> fst (tap_sides (c\<lparr>debug := Some g\<rparr>) W) = Some d \<and> accepts (sinks W' d) (length p) \<longrightarrow>
        fst (Write_then_Flush (fst (init (c\<lparr>debug := Some g\<rparr>) W)) p W')
          = fst (Write_then_Flush (fst (init (c\<lparr>debug := None\<rparr>) W)) p W')
        \<and> conns (snd (snd (Write_then_Flush (fst (init (c\<lparr>debug := Some g\<rparr>) W)) p W')))
          = conns (snd (snd (Write_then_Flush (fst (init (c\<lparr>debug := None\<rparr>) W)) p W')))"
    using init_tapped_side[where c=c and g=g and W=W and d=d and W'=W' and p=p] by blast
  have u: "fst (tap_sides (c\<lparr>debug := Some g\<rparr>) W) = None \<longrightarrow>
        fst (Write_then_Flush (fst (init (c\<lparr>debug := Some g\<rparr>) W)) p W')
          = fst (Write_then_Flush (fst (init (c\<lparr>debug := None\<rparr>) W)) p W')
        \<and> snd (snd (Write_then_Flush (fst (init (c\<lparr>debug := Some g\<rparr>) W)) p W'))
          = snd (snd (Write_then_Flush (fst (init (c\<lparr>debug := None\<rparr>) W)) p W'))"
    using init_untapped_side[where c=c and g=g and W=W and p=p and W'=W'] by blast
  have se: "snd (fst (io_Write (tapped_writer sid None) p W)) \<noteq> None \<longrightarrow>
        io_Write (tapped_writer sid (Some d)) p W = io_Write (tapped_writer sid None) p W"
    using tapped_write_stream_error[where sid=sid and p=p and W=W and d=d] by blast
  have we: "\<not> accepts (sinks W d) (length p) \<and> snd (fst (io_Write (tapped_writer sid None) p W)) = None \<longrightarrow>
        fst (io_Write (tapped_writer sid (Some d)) p W) = fst (sink_Write d p W)
        \<and> snd (fst (sink_Write d p W)) = Some (failure (sinks W d))
        \<and> conns (snd (io_Write (tapped_writer sid (Some d)) p W))
            = conns (snd (io_Write (tapped_writer sid None) p W))"
    using tapped_write_sink_error[where W=W and d=d and p=p and sid=sid] by blast
  have re: "fst (fst (io_Read (tapped_reader sid None) k W)) \<noteq> []
        \<and> \<not> accepts (sinks W d) (length (fst (fst (io_Read (tapped_reader sid None) k W)))) \<longrightarrow>
        fst (io_Read (tapped_reader sid (Some d)) k W)
          = (take (fst (fst (sink_Write d (fst (fst (io_Read (tapped_reader sid None) k W))) W)))
               (fst (fst (io_Read (tapped_reader sid None) k W))),
             Some (failure (sinks W d)))
        \<and> conns (snd (io_Read (tapped_reader sid (Some d)) k W))
            = conns (snd (io_Read (tapped_reader sid None) k W))"
    using tapped_read_sink_error[where sid=sid and k=k and W=W and d=d] by blast
  have tw: "tapped_writer sid None = Plain (ToConn sid)" by (simp add: tapped_writer_def)
  have tr: "tapped_reader sid None = FromConn sid" by (simp add: tapped_reader_def)
  from init_buffers(1)[where c=c and W=W] init_buffers(2)[where c=c and W=W] init_fields(7)[where c=c and W=W] init_buffers(3)[where c=c and W=W]
    tap_sides_simps(1)[where c=c and W=W] tap_sides_simps(3)[where c=c and d=d and W=W] tap_sides_simps(2)[where c=c and l=l and r=r and W=W]
    tap_sides_simps(4)[where c=c and fl=fl and fr=fr and ?W0.0=W0 and W=W] tw tr w r f t u se we re
  show ?thesis by (intro conjI)
qed

lemma SetDebug_conn0:
  "SetDebug (Some (OtherWriter (Suc 0))) conn0 world0
     = (conn0\<lparr>debug := Some (OtherWriter (Suc 0)),
               br := Some \<lparr>rbuf = [], rd = TeeReader 0 (Suc 0)\<rparr>,
               bw := Some \<lparr>wbuf = [], werr = None, wr = MultiWriter [ToConn 0, ToSink (Suc 0)]\<rparr>\<rparr>, world0)"
  "SetDebug None conn0 world0 = (conn0, world0)"
  by (simp_all add: SetDebug_def init_def debug_sides_def Let_def conn0_def Reader_Reset_def
      Writer_Reset_def newMultiFlusher_def world0_conn0)

lemma netconn_Write_accepted:
  "room (wire (conns W sid)) = None
   \<Longrightarrow> accepted (wire (conns (snd (netconn_Write sid p W)) sid)) = accepted (wire (conns W sid)) @ p"
  by (simp add: netconn_Write_def endpoint_Write_def)

lemma tapped_conn0_run:
  "\<exists>W'. Write_then_Flush (conn0\<lparr>debug := Some (OtherWriter (Suc 0)),
               br := Some \<lparr>rbuf = [], rd = TeeReader 0 (Suc 0)\<rparr>,
               bw := Some \<lparr>wbuf = [], werr = None, wr = MultiWriter [ToConn 0, ToSink (Suc 0)]\<rparr>\<rparr>) ''a'' world0
     = (Some (Error ''sink''),
        conn0\<lparr>debug := Some (OtherWriter (Suc 0)),
               br := Some \<lparr>rbuf = [], rd = TeeReader 0 (Suc 0)\<rparr>,
               bw := Some \<lparr>wbuf = ''a'', werr = Some (Error ''sink''), wr = MultiWriter [ToConn 0, ToSink (Suc 0)]\<rparr>\<rparr>,
        W')
     \<and> accepted (wire (conns W' 0)) = ''a''"
proof -
  have s: "sinks world0 (Suc 0) = \<lparr>accepted = [], room = Some 0, failure = Error ''sink''\<rparr>"
    by (simp add: world0_def)
  obtain V1 where n: "netconn_Write 0 ''a'' world0 = ((Suc 0, None), V1)"
    by (simp add: netconn_Write_def endpoint_Write_def world0_conn0)
  from n netconn_Write_sinks[of 0 "''a''" world0] have v1: "sinks V1 = sinks world0" by simp
  from n netconn_Write_accepted[of world0 0 "''a''"] have a1: "accepted (wire (conns V1 0)) = ''a''"
    by (simp add: world0_conn0)
  obtain V2 where k: "sink_Write (Suc 0) ''a'' V1 = ((0, Some (Error ''sink'')), V2)"
    by (simp add: sink_Write_def endpoint_Write_def v1 s)
  from k sink_Write_conns[of "Suc 0" "''a''" V1] have "conns V2 = conns V1" by simp
  with a1 have a2: "accepted (wire (conns V2 0)) = ''a''" by simp
  have m: "multiWriter_Write [ToConn 0, ToSink (Suc 0)] ''a'' world0 = ((0, Some (Error ''sink'')), V2)"
    using n k by (simp add: target_Write_def)
  have "Write_then_Flush (conn0\<lparr>debug := Some (OtherWriter (Suc 0)),
               br := Some \<lparr>rbuf = [], rd = TeeReader 0 (Suc 0)\<rparr>,
               bw := Some \<lparr>wbuf = [], werr = None, wr = MultiWriter [ToConn 0, ToSink (Suc 0)]\<rparr>\<rparr>) ''a'' world0
     = (Some (Error ''sink''),
        conn0\<lparr>debug := Some (OtherWriter (Suc 0)),
               br := Some \<lparr>rbuf = [], rd = TeeReader 0 (Suc 0)\<rparr>,
               bw := Some \<lparr>wbuf = ''a'', werr = Some (Error ''sink''), wr = MultiWriter [ToConn 0, ToSink (Suc 0)]\<rparr>\<rparr>,
        V2)"
    by (simp add: Write_then_Flush_def Conn_Write_def conn0_def bufio_Write_def
        Conn_Flush_Writer_Flush Writer_Flush_def flusher_Flush_def bufio_Flush_def io_Write_def m
        del: multiWriter_Write.simps)
  with a2 show ?thesis by blast
qed

lemma tapped_conn0_run2:
  "Write_then_Flush (conn0\<lparr>debug := Some (OtherWriter (Suc 0)),
               br := Some \<lparr>rbuf = [], rd = TeeReader 0 (Suc 0)\<rparr>,
               bw := Some \<lparr>wbuf = ''a'', werr = Some (Error ''sink''), wr = MultiWriter [ToConn 0, ToSink (Suc 0)]\<rparr>\<rparr>) ''b'' W
     = (Some (Error ''sink''),
        conn0\<lparr>debug := Some (OtherWriter (Suc 0)),
               br := Some \<lparr>rbuf = [], rd = TeeReader 0 (Suc 0)\<rparr>,
               bw := Some \<lparr>wbuf = ''a'', werr = Some (Error ''sink''), wr = MultiWriter [ToConn 0, ToSink (Suc 0)]\<rparr>\<rparr>, W)"
  by (simp add: Write_then_Flush_def Conn_Write_def conn0_def bufio_Write_def
      Conn_Flush_Writer_Flush Writer_Flush_def flusher_Flush_def bufio_Flush_def)

lemma plain_conn0_run:
  "room (wire (conns W 0)) = None \<Longrightarrow> flush_result (conns W 0) = None \<Longrightarrow>
   Write_then_Flush conn0 p W = (None, conn0, snd (netconn_Flush 0 (snd (netconn_Write 0 p W))))"
proof -
  assume r: "room (wire (conns W 0)) = None" and f: "flush_result (conns W 0) = None"
  obtain W1 where n: "netconn_Write 0 p W = ((length p, None), W1)"
    by (simp add: netconn_Write_def endpoint_Write_def r)
  have g: "flush_result (conns W1 0) = None"
    using n f by (auto simp: netconn_Write_def split: prod.splits)
  have c: "conn0\<lparr>bw := Some \<lparr>wbuf = [], werr = None, wr = Plain (ToConn 0)\<rparr>\<rparr> = conn0"
    by (simp add: conn0_def)
  show ?thesis
  proof (cases "p = []")
    case True
    have "snd (netconn_Write 0 [] W) = W"
      by (simp add: netconn_Write_def endpoint_Write_Nil)
    with True f c show ?thesis
      by (simp add: Write_then_Flush_def Conn_Write_def bufio_Write_def Conn_Flush_Writer_Flush
          Writer_Flush_def flusher_Flush_def bufio_Flush_def netconn_Flush_def conn0_def)
  next
    case False
    have "Write_then_Flush conn0 p W = (None, conn0, snd (netconn_Flush 0 W1))"
      using False n g c
      by (simp add: Write_then_Flush_def Conn_Write_def bufio_Write_def Conn_Flush_Writer_Flush
          Writer_Flush_def flusher_Flush_def bufio_Flush_def io_Write_def target_Write_def
          netconn_Flush_def conn0_def)
    with n show ?thesis by simp
  qed
qed

text \<open>
  Claim C8 fails when a sink fails. The diagnostic writer is set to a sink that is
  full, and two bytes are written through the transport, each followed by a flush:
  both flushes return the error of the sink and the stream receives the first byte
  only, the buffered writer refusing what follows the error. Without a diagnostic
  writer both flushes return \<open>nil\<close> and the stream receives both bytes.
\<close>

theorem tap_failing_sink_counterexample:
  "(case NewConn 0 world0 of
      (c, W) \<Rightarrow>
        (case SetDebug (Some (OtherWriter 1)) c W of
           (ct, Wt) \<Rightarrow>
             (case Write_then_Flush ct ''a'' Wt of
                (e1, ct1, W1) \<Rightarrow>
                  (case Write_then_Flush ct1 ''b'' W1 of
                     (e2, ct2, W2) \<Rightarrow> (e1, e2, accepted (wire (conns W2 0)))))))
     = (Some (Error ''sink''), Some (Error ''sink''), ''a'')
   \<and> (case NewConn 0 world0 of
      (c, W) \<Rightarrow>
        (case SetDebug None c W of
           (c0, W0) \<Rightarrow>
             (case Write_then_Flush c0 ''a'' W0 of
                (e1, c1, W1) \<Rightarrow>
                  (case Write_then_Flush c1 ''b'' W1 of
                     (e2, c2, W2) \<Rightarrow> (e1, e2, accepted (wire (conns W2 0)))))))
     = (None, None, ''ab'')"
proof -
  let ?ct = "conn0\<lparr>debug := Some (OtherWriter (Suc 0)),
               br := Some \<lparr>rbuf = [], rd = TeeReader 0 (Suc 0)\<rparr>,
               bw := Some \<lparr>wbuf = [], werr = None, wr = MultiWriter [ToConn 0, ToSink (Suc 0)]\<rparr>\<rparr>"
  let ?ct1 = "conn0\<lparr>debug := Some (OtherWriter (Suc 0)),
               br := Some \<lparr>rbuf = [], rd = TeeReader 0 (Suc 0)\<rparr>,
               bw := Some \<lparr>wbuf = ''a'', werr = Some (Error ''sink''), wr = MultiWriter [ToConn 0, ToSink (Suc 0)]\<rparr>\<rparr>"
  from tapped_conn0_run obtain Wt where
    t1: "Write_then_Flush ?ct ''a'' world0 = (Some (Error ''sink''), ?ct1, Wt)"
    and a: "accepted (wire (conns Wt 0)) = ''a''"
    by blast
  have t2: "Write_then_Flush ?ct1 ''b'' Wt = (Some (Error ''sink''), ?ct1, Wt)"
    by (rule tapped_conn0_run2)
  let ?W1 = "snd (netconn_Flush 0 (snd (netconn_Write 0 ''a'' world0)))"
  have r1: "Write_then_Flush conn0 ''a'' world0 = (None, conn0, ?W1)"
    by (rule plain_conn0_run) (simp_all add: world0_conn0)
  have w1: "room (wire (conns ?W1 0)) = None" "flush_result (conns ?W1 0) = None"
    by (simp_all add: netconn_Flush_def netconn_Write_def endpoint_Write_def world0_conn0)
  have "accepted (wire (conns ?W1 0)) = accepted (wire (conns (snd (netconn_Write 0 ''a'' world0)) 0))"
    by (simp only: netconn_Flush_wire)
  also have "\<dots> = accepted (wire (conns world0 0)) @ ''a''"
    by (rule netconn_Write_accepted[OF world0_conn0(4)])
  finally have w2: "accepted (wire (conns ?W1 0)) = ''a''"
    by (simp add: world0_conn0(5))
  have r2: "Write_then_Flush conn0 ''b'' ?W1 = (None, conn0, snd (netconn_Flush 0 (snd (netconn_Write 0 ''b'' ?W1))))"
    by (rule plain_conn0_run) (simp_all add: w1)
  have "accepted (wire (conns (snd (netconn_Flush 0 (snd (netconn_Write 0 ''b'' ?W1)))) 0))
      = accepted (wire (conns (snd (netconn_Write 0 ''b'' ?W1)) 0))"
    by (simp only: netconn_Flush_wire)
  also have "\<dots> = accepted (wire (conns ?W1 0)) @ ''b''"
    by (rule netconn_Write_accepted[OF w1(1)])
  finally have b: "accepted (wire (conns (snd (netconn_Flush 0 (snd (netconn_Write 0 ''b'' ?W1)))) 0)) = ''ab''"
    by (simp add: w2)
  show ?thesis
    by (simp only: NewConn_conn0 SetDebug_conn0 One_nat_def prod.case t1 t2 r1 r2 a b simp_thms)
qed

theorem tap_preserves_bytes_witness:
  "fst (io_Write (MultiWriter [ToConn 0, ToSink 0]) ''a'' world0) = (1, None)
   \<and> accepted (wire (conns (snd (io_Write (MultiWriter [ToConn 0, ToSink 0]) ''a'' world0)) 0)) = ''a''
   \<and> accepted (sinks (snd (io_Write (MultiWriter [ToConn 0, ToSink 0]) ''a'' world0)) 0) = ''a''
   \<and> io_Write (Plain (ToConn 0)) ''a'' world0 = ((1, None), snd (netconn_Write 0 ''a'' world0))
   \<and> fst (io_Read (TeeReader 3 0) 2 world0) = (''OK'', None)
   \<and> accepted (sinks (snd (io_Read (TeeReader 3 0) 2 world0)) 0) = ''OK''
   \<and> fst (io_Read (FromConn 3) 2 world0) = (''OK'', None)
   \<and> io_Write (MultiWriter [ToConn 2, ToSink 0]) ''a'' world0 = io_Write (Plain (ToConn 2)) ''a'' world0
   \<and> fst (io_Write (Plain (ToConn 2)) ''a'' world0) = (0, Some (Error ''broken pipe''))
   \<and> fst (io_Write (MultiWriter [ToConn 0, ToSink 1]) ''a'' world0) = (0, Some (Error ''sink''))
   \<and> accepted (wire (conns (snd (io_Write (MultiWriter [ToConn 0, ToSink 1]) ''a'' world0)) 0)) = ''a''
   \<and> fst (io_Read (TeeReader 3 1) 2 world0) = ([], Some (Error ''sink''))
   \<and> incoming (conns (snd (io_Read (TeeReader 3 1) 2 world0)) 3) = []
   \<and> fst (Write_then_Flush (fst (SetDebug (Some (OtherWriter 0)) conn0 world0)) ''a'' world0) = None
   \<and> accepted (wire (conns (snd (snd (Write_then_Flush (fst (SetDebug (Some (OtherWriter 0)) conn0 world0))
             ''a'' world0))) 0)) = ''a''
   \<and> fst (Write_then_Flush (fst (SetDebug (Some (NewDebugWriter None (Some 0))) conn0 world0)) ''a'' world0) = None
   \<and> snd (snd (Write_then_Flush (fst (SetDebug (Some (NewDebugWriter None (Some 0))) conn0 world0)) ''a'' world0))
       = snd (netconn_Flush 0 (snd (netconn_Write 0 ''a'' world0)))
   \<and> bw (fst (SetDebug (Some (OtherWriter 0)) (conn0\<lparr>bw := Some \<lparr>wbuf = ''x'', werr = None, wr = Plain (ToConn 0)\<rparr>\<rparr>) world0))
       = Some \<lparr>wbuf = [], werr = None, wr = MultiWriter [ToConn 0, ToSink 0]\<rparr>
   \<and> bw (fst (SetDebug None (conn0\<lparr>bw := Some \<lparr>wbuf = ''x'', werr = None, wr = Plain (ToConn 0)\<rparr>\<rparr>) world0))
       = Some \<lparr>wbuf = [], werr = None, wr = Plain (ToConn 0)\<rparr>
   \<and> fst (Conn_Flush (conn0\<lparr>bw := Some \<lparr>wbuf = ''a'', werr = None, wr = MultiWriter [ToConn 0, ToSink 0]\<rparr>\<rparr>) world0) = None
   \<and> accepted (wire (conns (snd (snd (Conn_Flush
         (conn0\<lparr>bw := Some \<lparr>wbuf = ''a'', werr = None, wr = MultiWriter [ToConn 0, ToSink 0]\<rparr>\<rparr>) world0))) 0)) = ''a''"
proof -
  have s: "sinks world0 0 = \<lparr>accepted = [], room = None, failure = Error ''sink''\<rparr>"
    by (simp add: world0_def)
  have s1: "sinks world0 (Suc 0) = \<lparr>accepted = [], room = Some 0, failure = Error ''sink''\<rparr>"
    by (simp add: world0_def)
  have a0: "accepts (sinks world0 0) n" for n
    by (simp add: accepts_def s)
  have n1: "\<not> accepts (sinks world0 (Suc 0)) (length ''a'')" "\<not> accepts (sinks world0 (Suc 0)) (length ''OK'')"
    by (simp_all add: accepts_def s1)
  have tw: "tapped_writer sid (Some d) = MultiWriter [ToConn sid, ToSink d]"
    "tapped_writer sid None = Plain (ToConn sid)" for sid d
    by (simp_all add: tapped_writer_def)
  have tr: "tapped_reader sid (Some d) = TeeReader sid d" "tapped_reader sid None = FromConn sid" for sid d
    by (simp_all add: tapped_reader_def)
  have pw: "io_Write (Plain (ToConn 0)) ''a'' world0 = ((Suc 0, None), snd (netconn_Write 0 ''a'' world0))"
    by (simp add: io_Write_def target_Write_def netconn_Write_def endpoint_Write_def world0_conn0)
  have pw2: "fst (io_Write (Plain (ToConn 2)) ''a'' world0) = (0, Some (Error ''broken pipe''))"
    by (simp add: io_Write_def target_Write_def netconn_Write_def endpoint_Write_def world0_def plain_conn_def)
  have pr: "io_Read (FromConn 3) 2 world0 = ((''OK'', None), snd (netconn_Read 3 2 world0))"
    by (simp add: io_Read_def netconn_Read_def Let_def world0_def plain_conn_def)
  have pi: "incoming (conns (snd (netconn_Read 3 2 world0)) 3) = []"
    by (simp add: netconn_Read_def Let_def world0_def plain_conn_def)
  have wa: "accepted (wire (conns (snd (netconn_Write 0 ''a'' world0)) 0)) = ''a''"
    using netconn_Write_accepted[OF world0_conn0(4), of "''a''"] by (simp add: world0_conn0(5))
  note t = tap_preserves_bytes[where W = world0 and d = 0 and p = "''a''" and sid = 0]
  note u = tap_preserves_bytes[where W = world0 and d = 0 and k = 2 and sid = 3]
  note v = tap_preserves_bytes[where W = world0 and d = 0 and p = "''a''" and sid = 2]
  note x = tap_preserves_bytes[where W = world0 and d = "Suc 0" and p = "''a''" and sid = 0]
  note y = tap_preserves_bytes[where W = world0 and d = "Suc 0" and k = 2 and sid = 3]
  note z = tap_preserves_bytes[where W = world0 and W' = world0 and c = conn0
      and g = "OtherWriter 0" and d = 0 and p = "''a''"]
  note z' = tap_preserves_bytes[where W = world0 and W' = world0 and c = conn0
      and g = "NewDebugWriter None (Some 0)" and p = "''a''"]
  note i = tap_preserves_bytes[where W = world0
      and c = "conn0\<lparr>bw := Some \<lparr>wbuf = ''x'', werr = None, wr = Plain (ToConn 0)\<rparr>, debug := Some (OtherWriter 0)\<rparr>"]
  note i' = tap_preserves_bytes[where W = world0
      and c = "conn0\<lparr>bw := Some \<lparr>wbuf = ''x'', werr = None, wr = Plain (ToConn 0)\<rparr>, debug := None\<rparr>"]
  from t a0[of "length ''a''"]
  have "io_Write (tapped_writer 0 (Some 0)) ''a'' world0 =
          (case io_Write (tapped_writer 0 None) ''a'' world0 of
             ((n, e), W1) \<Rightarrow> ((n, e), if e = None then snd (sink_Write 0 ''a'' W1) else W1))"
    by blast
  then have w: "io_Write (MultiWriter [ToConn 0, ToSink 0]) ''a'' world0
             = ((Suc 0, None), snd (sink_Write 0 ''a'' (snd (netconn_Write 0 ''a'' world0))))"
    by (simp add: tw pw)
  from u a0[of "length (fst (fst (io_Read (tapped_reader 3 None) 2 world0)))"]
  have "io_Read (tapped_reader 3 (Some 0)) 2 world0 =
          (case io_Read (tapped_reader 3 None) 2 world0 of
             ((bs, e), W1) \<Rightarrow> ((bs, e), if bs \<noteq> [] then snd (sink_Write 0 bs W1) else W1))"
    by blast
  then have r: "io_Read (TeeReader 3 0) 2 world0
             = ((''OK'', None), snd (sink_Write 0 ''OK'' (snd (netconn_Read 3 2 world0))))"
    by (simp add: tr pr)
  have e1: "accepted (wire (conns (snd (sink_Write 0 ''a'' (snd (netconn_Write 0 ''a'' world0)))) 0)) = ''a''"
    by (simp add: sink_Write_conns wa)
  have e2: "accepted (sinks (snd (sink_Write 0 ''a'' (snd (netconn_Write 0 ''a'' world0)))) 0) = ''a''"
    by (simp add: sink_Write_def netconn_Write_sinks endpoint_Write_def s split: prod.splits)
  have e3: "accepted (sinks (snd (sink_Write 0 ''OK'' (snd (netconn_Read 3 2 world0)))) 0) = ''OK''"
    by (simp add: sink_Write_def netconn_Read_sinks endpoint_Write_def s split: prod.splits)
  have "snd (fst (io_Write (tapped_writer 2 None) ''a'' world0)) \<noteq> None"
    by (simp add: tw pw2)
  with v have "io_Write (tapped_writer 2 (Some 0)) ''a'' world0 = io_Write (tapped_writer 2 None) ''a'' world0"
    by blast
  then have se: "io_Write (MultiWriter [ToConn 2, ToSink 0]) ''a'' world0 = io_Write (Plain (ToConn 2)) ''a'' world0"
    by (simp add: tw)
  have "snd (fst (io_Write (tapped_writer 0 None) ''a'' world0)) = None"
    by (simp add: tw pw)
  with x n1(1)
  have "fst (io_Write (tapped_writer 0 (Some (Suc 0))) ''a'' world0) = fst (sink_Write (Suc 0) ''a'' world0)
        \<and> conns (snd (io_Write (tapped_writer 0 (Some (Suc 0))) ''a'' world0))
            = conns (snd (io_Write (tapped_writer 0 None) ''a'' world0))"
    by blast
  then have we: "fst (io_Write (MultiWriter [ToConn 0, ToSink (Suc 0)]) ''a'' world0) = (0, Some (Error ''sink''))"
    and wc: "accepted (wire (conns (snd (io_Write (MultiWriter [ToConn 0, ToSink (Suc 0)]) ''a'' world0)) 0)) = ''a''"
    by (simp_all add: tw pw wa sink_Write_def endpoint_Write_def s1)
  have "fst (fst (io_Read (tapped_reader 3 None) 2 world0)) \<noteq> []"
    "\<not> accepts (sinks world0 (Suc 0)) (length (fst (fst (io_Read (tapped_reader 3 None) 2 world0))))"
    using n1(2) by (simp_all add: tr pr)
  with y
  have "fst (io_Read (tapped_reader 3 (Some (Suc 0))) 2 world0)
          = (take (fst (fst (sink_Write (Suc 0) (fst (fst (io_Read (tapped_reader 3 None) 2 world0))) world0)))
               (fst (fst (io_Read (tapped_reader 3 None) 2 world0))),
             Some (failure (sinks world0 (Suc 0))))
        \<and> conns (snd (io_Read (tapped_reader 3 (Some (Suc 0))) 2 world0))
            = conns (snd (io_Read (tapped_reader 3 None) 2 world0))"
    by blast
  then have re: "fst (io_Read (TeeReader 3 (Suc 0)) 2 world0) = ([], Some (Error ''sink''))"
    and rc: "incoming (conns (snd (io_Read (TeeReader 3 (Suc 0)) 2 world0)) 3) = []"
    by (simp_all add: tr pr pi sink_Write_def endpoint_Write_def s1)
  have p0: "Write_then_Flush conn0 ''a'' world0
      = (None, conn0, snd (netconn_Flush 0 (snd (netconn_Write 0 ''a'' world0))))"
    by (rule plain_conn0_run) (simp_all add: world0_conn0)
  have i0: "init (conn0\<lparr>debug := None\<rparr>) world0 = (conn0, world0)"
    using SetDebug_conn0(2) by (simp add: SetDebug_def)
  have "bw conn0 = None \<or> made_by_init (Writer_Writer conn0)"
    by (simp add: conn0_def)
  moreover have "fst (tap_sides (conn0\<lparr>debug := Some (OtherWriter 0)\<rparr>) world0) = Some 0"
    by (simp add: tap_sides_simps)
  ultimately have "(bw conn0 = None \<or> made_by_init (Writer_Writer conn0))
      \<and> fst (tap_sides (conn0\<lparr>debug := Some (OtherWriter 0)\<rparr>) world0) = Some 0" by blast
  with z a0[of "length ''a''"]
  have "fst (Write_then_Flush (fst (init (conn0\<lparr>debug := Some (OtherWriter 0)\<rparr>) world0)) ''a'' world0)
          = fst (Write_then_Flush (fst (init (conn0\<lparr>debug := None\<rparr>) world0)) ''a'' world0)
        \<and> conns (snd (snd (Write_then_Flush (fst (init (conn0\<lparr>debug := Some (OtherWriter 0)\<rparr>) world0)) ''a'' world0)))
          = conns (snd (snd (Write_then_Flush (fst (init (conn0\<lparr>debug := None\<rparr>) world0)) ''a'' world0)))"
    by blast
  then have ts: "fst (Write_then_Flush (fst (SetDebug (Some (OtherWriter 0)) conn0 world0)) ''a'' world0) = None"
    and tc: "accepted (wire (conns (snd (snd (Write_then_Flush (fst (SetDebug (Some (OtherWriter 0)) conn0 world0))
             ''a'' world0))) 0)) = ''a''"
    by (simp_all add: SetDebug_def i0 p0 netconn_Flush_wire wa)
  have "fst (tap_sides (conn0\<lparr>debug := Some (NewDebugWriter None (Some 0))\<rparr>) world0) = None"
    by (simp add: tap_sides_simps)
  with z'
  have "fst (Write_then_Flush (fst (init (conn0\<lparr>debug := Some (NewDebugWriter None (Some 0))\<rparr>) world0)) ''a'' world0)
          = fst (Write_then_Flush (fst (init (conn0\<lparr>debug := None\<rparr>) world0)) ''a'' world0)
        \<and> snd (snd (Write_then_Flush (fst (init (conn0\<lparr>debug := Some (NewDebugWriter None (Some 0))\<rparr>) world0)) ''a'' world0))
          = snd (snd (Write_then_Flush (fst (init (conn0\<lparr>debug := None\<rparr>) world0)) ''a'' world0))"
    by blast
  then have us: "fst (Write_then_Flush (fst (SetDebug (Some (NewDebugWriter None (Some 0))) conn0 world0)) ''a'' world0) = None"
    and uc: "snd (snd (Write_then_Flush (fst (SetDebug (Some (NewDebugWriter None (Some 0))) conn0 world0)) ''a'' world0))
       = snd (netconn_Flush 0 (snd (netconn_Write 0 ''a'' world0)))"
    by (simp_all add: SetDebug_def i0 p0)
  from i have ib: "bw (fst (SetDebug (Some (OtherWriter 0)) (conn0\<lparr>bw := Some \<lparr>wbuf = ''x'', werr = None, wr = Plain (ToConn 0)\<rparr>\<rparr>) world0))
       = Some \<lparr>wbuf = [], werr = None, wr = MultiWriter [ToConn 0, ToSink 0]\<rparr>"
    by (simp add: SetDebug_def tap_sides_def debug_sides_def conn0_def tw)
  from i' have ib': "bw (fst (SetDebug None (conn0\<lparr>bw := Some \<lparr>wbuf = ''x'', werr = None, wr = Plain (ToConn 0)\<rparr>\<rparr>) world0))
       = Some \<lparr>wbuf = [], werr = None, wr = Plain (ToConn 0)\<rparr>"
    by (simp add: SetDebug_def tap_sides_def conn0_def tw)
  note q = tap_preserves_bytes[where W = world0 and sid = 0 and d = 0
      and b = "\<lparr>wbuf = ''a'', werr = None, wr = MultiWriter [ToConn 0, ToSink 0]\<rparr>"
      and c = "conn0\<lparr>bw := Some \<lparr>wbuf = ''a'', werr = None, wr = MultiWriter [ToConn 0, ToSink 0]\<rparr>\<rparr>"]
  have pf: "Conn_Flush (conn0\<lparr>bw := Some \<lparr>wbuf = ''a'', werr = None, wr = Plain (ToConn 0)\<rparr>\<rparr>) world0
      = (None, conn0, snd (netconn_Flush 0 (snd (netconn_Write 0 ''a'' world0))))"
  proof -
    obtain W1 where n: "netconn_Write 0 ''a'' world0 = ((Suc 0, None), W1)"
      by (simp add: netconn_Write_def endpoint_Write_def world0_conn0)
    have g: "flush_result (conns W1 0) = None"
      using n world0_conn0(1) by (auto simp: netconn_Write_def split: prod.splits)
    have "Conn_Flush (conn0\<lparr>bw := Some \<lparr>wbuf = ''a'', werr = None, wr = Plain (ToConn 0)\<rparr>\<rparr>) world0
        = (None, conn0, snd (netconn_Flush 0 W1))"
      using n g
      by (simp add: Conn_Flush_Writer_Flush Writer_Flush_def flusher_Flush_def bufio_Flush_def
          io_Write_def target_Write_def netconn_Flush_def conn0_def)
    with n show ?thesis by simp
  qed
  have "made_by_init (Writer_Writer (conn0\<lparr>bw := Some \<lparr>wbuf = ''a'', werr = None, wr = MultiWriter [ToConn 0, ToSink 0]\<rparr>\<rparr>))
      \<and> bw (conn0\<lparr>bw := Some \<lparr>wbuf = ''a'', werr = None, wr = MultiWriter [ToConn 0, ToSink 0]\<rparr>\<rparr>)
          = Some \<lparr>wbuf = ''a'', werr = None, wr = MultiWriter [ToConn 0, ToSink 0]\<rparr>
      \<and> wr \<lparr>wbuf = ''a'', werr = None, wr = MultiWriter [ToConn 0, ToSink 0]\<rparr> = tapped_writer 0 (Some 0)
      \<and> accepts (sinks world0 0) (length (wbuf \<lparr>wbuf = ''a'', werr = None, wr = MultiWriter [ToConn 0, ToSink 0]\<rparr>))"
    by (simp add: conn0_def tw a0)
  with q
  have "fst (Conn_Flush (conn0\<lparr>bw := Some \<lparr>wbuf = ''a'', werr = None, wr = MultiWriter [ToConn 0, ToSink 0]\<rparr>\<rparr>) world0)
        = fst (Conn_Flush (conn0\<lparr>bw := Some \<lparr>wbuf = ''a'', werr = None, wr = MultiWriter [ToConn 0, ToSink 0]\<rparr>\<rparr>
              \<lparr>bw := Some (\<lparr>wbuf = ''a'', werr = None, wr = MultiWriter [ToConn 0, ToSink 0]\<rparr>\<lparr>wr := tapped_writer 0 None\<rparr>)\<rparr>) world0)
     \<and> conns (snd (snd (Conn_Flush (conn0\<lparr>bw := Some \<lparr>wbuf = ''a'', werr = None, wr = MultiWriter [ToConn 0, ToSink 0]\<rparr>\<rparr>) world0)))
        = conns (snd (snd (Conn_Flush (conn0\<lparr>bw := Some \<lparr>wbuf = ''a'', werr = None, wr = MultiWriter [ToConn 0, ToSink 0]\<rparr>\<rparr>
              \<lparr>bw := Some (\<lparr>wbuf = ''a'', werr = None, wr = MultiWriter [ToConn 0, ToSink 0]\<rparr>\<lparr>wr := tapped_writer 0 None\<rparr>)\<rparr>) world0)))"
    by blast
  then have fs: "fst (Conn_Flush (conn0\<lparr>bw := Some \<lparr>wbuf = ''a'', werr = None, wr = MultiWriter [ToConn 0, ToSink 0]\<rparr>\<rparr>) world0) = None"
    and fc: "accepted (wire (conns (snd (snd (Conn_Flush
         (conn0\<lparr>bw := Some \<lparr>wbuf = ''a'', werr = None, wr = MultiWriter [ToConn 0, ToSink 0]\<rparr>\<rparr>) world0))) 0)) = ''a''"
    by (simp_all add: tw pf netconn_Flush_wire wa)
  from w r pw pr e1 e2 e3 se pw2 we wc re rc ts tc us uc ib ib' fs fc show ?thesis by simp
qed

end
